theory Spec2Isabelle
  imports Main "HOL-Library.Word"
begin

unbundle bit_operations_syntax

section \<open>The microcontroller and its surroundings\<close>

text \<open>
  The firmware of \<^verbatim>\<open>ATtiny10Thermometer.ino\<close> talks to the hardware through
  memory-mapped registers. The registers the program writes are fields of the record
  \<open>mcu\<close>, next to the scratchpad buffer \<open>DataBytes\<close> (the union's nine bytes; an index
  is checked against the size 9 wherever the code reads or writes the array).

  Two things are not register contents: the time that passes, and what the outside world
  puts on the input pins. Both are kept in \<open>trace\<close>, the history of the run:
  \<^item> \<open>Busy d n\<close>: a busy-wait of \<open>n\<close> ticks of timer 0 (microseconds at the 1 MHz the
    program configures), during which the one-wire pin was in drive state \<open>d\<close>;
  \<^item> \<open>Sample p\<close>: one read of the input register PINB, which gave \<open>p\<close>;
  \<^item> \<open>Sleep portb wdtcsr\<close>: the processor entered power-down sleep with these contents
    of PORTB (the LEDs) and WDTCSR (the watchdog configuration);
  \<^item> \<open>Wake\<close>: the watchdog interrupt ended a sleep and its handler ran.
\<close>

datatype drive = DrivenLow | DrivenHigh | Released

datatype event =
    Busy drive nat
  | Sample "8 word"
  | Sleep "8 word" "8 word"
  | Wake

record mcu =
  DDRB :: "8 word"
  PORTB :: "8 word"
  TCNT0 :: "16 word"
  OCR0A :: "16 word"
  TIFR0 :: "8 word"
  WDTCSR :: "8 word"
  SMCR :: "8 word"
  DataBytes :: "nat \<Rightarrow> 8 word"
  trace :: "event list"

text \<open>
  The bus is the environment: it decides what PINB reads, from everything that happened
  on the pins so far.
\<close>

type_synonym bus = "event list \<Rightarrow> 8 word"

subsection \<open>Constants\<close>

definition OneWirePin :: nat where "OneWirePin = 0"
definition RedPin :: nat where "RedPin = 1"
definition GreenPin :: nat where "GreenPin = 2"

definition ReadROM :: "16 word" where "ReadROM = 0x33"
definition MatchROM :: "16 word" where "MatchROM = 0x55"
definition SkipROM :: "16 word" where "SkipROM = 0xCC"
definition ConvertT :: "16 word" where "ConvertT = 0x44"
definition ReadScratchpad :: "16 word" where "ReadScratchpad = 0xBE"

text \<open>
  Bit positions of the device header \<^verbatim>\<open>avr/io.h\<close> for the ATtiny10 (the header belongs
  to the toolchain, not to the repository): the compare-match flag of timer 0, the
  watchdog interrupt enable, the sleep enable and the power-down sleep mode.
\<close>

definition OCF0A :: nat where "OCF0A = 1"
definition WDIE :: nat where "WDIE = 6"
definition SE :: nat where "SE = 0"
definition SLEEP_MODE_PWR_DOWN :: "8 word" where "SLEEP_MODE_PWR_DOWN = 0x04"

section \<open>One-wire protocol\<close>

subsection \<open>The pin\<close>

definition PinLow :: "mcu \<Rightarrow> mcu" where
  "PinLow s = s\<lparr>DDRB := DDRB s OR push_bit OneWirePin 1\<rparr>"

definition PinRelease :: "mcu \<Rightarrow> mcu" where
  "PinRelease s = s\<lparr>DDRB := DDRB s AND NOT (push_bit OneWirePin 1)\<rparr>"

text \<open>
  \<open>PinRead\<close> returns 0 or 1: bit \<open>OneWirePin\<close> of PINB, which the bus supplies.
\<close>

definition PinRead :: "bus \<Rightarrow> mcu \<Rightarrow> 8 word \<times> mcu" where
  "PinRead bus s =
     (let pinb = bus (trace s)
      in (drop_bit OneWirePin pinb AND 1, s\<lparr>trace := trace s @ [Sample pinb]\<rparr>))"

text \<open>
  The drive state of the one-wire pin: an output when its bit of DDRB is set (then PORTB
  gives the level), an input left to the pull-up otherwise.
\<close>

definition line :: "mcu \<Rightarrow> drive" where
  "line s =
     (if bit (DDRB s) OneWirePin
      then (if bit (PORTB s) OneWirePin then DrivenHigh else DrivenLow)
      else Released)"

subsection \<open>Delays\<close>

text \<open>
  The busy-wait \<^verbatim>\<open>while ((TIFR0 & 1<<OCF0A) == 0);\<close> ends when the hardware sets the
  compare-match flag, that is when the counter, cleared at entry, reaches OCR0A. Timer 0
  is taken to run as \<open>OneWireSetup\<close> configures it. The wait is one \<open>Busy\<close> event of as
  many ticks as the counter needs (a full round of the 16-bit counter for the value 0).
\<close>

definition wait_compare :: "mcu \<Rightarrow> mcu" where
  "wait_compare s =
     s\<lparr>TCNT0 := OCR0A s,
       TIFR0 := TIFR0 s OR push_bit OCF0A 1,
       trace := trace s @ [Busy (line s) (if OCR0A s = 0 then 65536 else unat (OCR0A s))]\<rparr>"

text \<open>
  Writing a one to a flag of TIFR0 clears the flag; the other flags keep their value.
\<close>

definition DelayMicros :: "16 word \<Rightarrow> mcu \<Rightarrow> mcu" where
  "DelayMicros micro s =
     (let s1 = s\<lparr>TCNT0 := 0\<rparr>;
          s2 = s1\<lparr>TIFR0 := TIFR0 s1 AND NOT (push_bit OCF0A 1)\<rparr>;
          s3 = s2\<lparr>OCR0A := micro\<rparr>
      in wait_compare s3)"

definition LowRelease :: "16 word \<Rightarrow> 16 word \<Rightarrow> mcu \<Rightarrow> mcu" where
  "LowRelease low high s =
     (let s1 = PinLow s;
          s2 = DelayMicros low s1;
          s3 = PinRelease s2
      in DelayMicros high s3)"

subsection \<open>Reset, write and read\<close>

definition OneWireReset :: "bus \<Rightarrow> mcu \<Rightarrow> 8 word \<times> mcu" where
  "OneWireReset bus s =
     (let s1 = LowRelease 480 70 s;
          (data, s2) = PinRead bus s1;
          s3 = DelayMicros 410 s2
      in (data, s3))"

text \<open>
  The loop of \<open>OneWireWrite\<close> does not use its counter in the body: the first argument
  counts the iterations that remain.
\<close>

fun OneWireWrite_loop :: "nat \<Rightarrow> 8 word \<Rightarrow> mcu \<Rightarrow> mcu" where
  "OneWireWrite_loop 0 data s = s"
| "OneWireWrite_loop (Suc k) data s =
     (let del = (if data AND 1 = 1 then 6 else 60);
          s1 = LowRelease del (70 - del) s
      in OneWireWrite_loop k (drop_bit 1 data) s1)"

definition OneWireWrite :: "8 word \<Rightarrow> mcu \<Rightarrow> mcu" where
  "OneWireWrite data s = OneWireWrite_loop 8 data s"

function OneWireRead_loop :: "nat \<Rightarrow> 8 word \<Rightarrow> bus \<Rightarrow> mcu \<Rightarrow> 8 word \<times> mcu" where
  "OneWireRead_loop i data bus s =
     (if i < 8
      then (let s1 = LowRelease 6 9 s;
                (p, s2) = PinRead bus s1;
                data' = data OR push_bit i p;
                s3 = DelayMicros 55 s2
            in OneWireRead_loop (i + 1) data' bus s3)
      else (data, s))"
  by pat_completeness auto
termination
  by (relation "measure (\<lambda>(i, data, bus, s). 8 - i)") auto

declare OneWireRead_loop.simps [simp del]

definition OneWireRead :: "bus \<Rightarrow> mcu \<Rightarrow> 8 word \<times> mcu" where
  "OneWireRead bus s = OneWireRead_loop 0 0 bus s"

text \<open>
  Bytes are stored least significant byte first. The buffer has nine bytes: a store or a
  load at an index from 9 on leaves the array, which C does not define; the model gives
  \<open>None\<close> there.
\<close>

function OneWireReadBytes_loop :: "nat \<Rightarrow> int \<Rightarrow> bus \<Rightarrow> mcu \<Rightarrow> mcu option" where
  "OneWireReadBytes_loop i bytes bus s =
     (if int i < bytes
      then (if i < 9
            then (let (d, s1) = OneWireRead bus s
                  in OneWireReadBytes_loop (i + 1) bytes bus
                       (s1\<lparr>DataBytes := (DataBytes s1)(i := d)\<rparr>))
            else None)
      else Some s)"
  by pat_completeness auto
termination
  by (relation "measure (\<lambda>(i, bytes, bus, s). 9 - i)") auto

declare OneWireReadBytes_loop.simps [simp del]

definition OneWireReadBytes :: "int \<Rightarrow> bus \<Rightarrow> mcu \<Rightarrow> mcu option" where
  "OneWireReadBytes bytes bus s = OneWireReadBytes_loop 0 bytes bus s"

subsection \<open>Checksum\<close>

text \<open>
  The inner loop of \<open>OneWireCRC\<close>, eight times
  \<^verbatim>\<open>crc = crc>>1 ^ ((crc & 1) ? 0x8c : 0)\<close>; its counter is not used in the body.
\<close>

fun OneWireCRC_bits :: "nat \<Rightarrow> 8 word \<Rightarrow> 8 word" where
  "OneWireCRC_bits 0 crc = crc"
| "OneWireCRC_bits (Suc k) crc =
     OneWireCRC_bits k (drop_bit 1 crc XOR (if crc AND 1 \<noteq> 0 then 0x8C else 0))"

function OneWireCRC_loop :: "nat \<Rightarrow> int \<Rightarrow> 8 word \<Rightarrow> mcu \<Rightarrow> 8 word option" where
  "OneWireCRC_loop j bytes crc s =
     (if int j < bytes
      then (if j < 9
            then OneWireCRC_loop (j + 1) bytes (OneWireCRC_bits 8 (crc XOR DataBytes s j)) s
            else None)
      else Some crc)"
  by pat_completeness auto
termination
  by (relation "measure (\<lambda>(j, bytes, crc, s). 9 - j)") auto

declare OneWireCRC_loop.simps [simp del]

definition OneWireCRC :: "int \<Rightarrow> mcu \<Rightarrow> 8 word option" where
  "OneWireCRC bytes s = OneWireCRC_loop 0 bytes 0 s"

section \<open>Watchdog timer\<close>

text \<open>
  \<open>set_sleep_mode\<close>, \<open>sleep_enable\<close> and \<open>sleep_cpu\<close> are macros of \<^verbatim>\<open>avr/sleep.h\<close>:
  the first two write the mode bits and the enable bit of SMCR, the third executes the
  SLEEP instruction. The instruction puts the processor to sleep only while the enable
  bit SE of SMCR is set; with SE clear it does nothing and the program goes on at once.

  In power-down mode the processor stays asleep until an enabled interrupt arrives. The
  program enables one interrupt source only, the watchdog's, so \<open>wdt_interrupt\<close> is the
  one way out of a sleep: the hardware takes the interrupt only while WDIE is set
  (global interrupts are on: \<open>setup\<close> executes \<open>sei\<close> and nothing clears the flag
  afterwards), and then runs the handler \<open>ISR_WDT_vect\<close>. \<open>None\<close> is a sleep that never
  ends.
\<close>

definition ISR_WDT_vect :: "mcu \<Rightarrow> mcu" where
  "ISR_WDT_vect s = s\<lparr>WDTCSR := push_bit WDIE 0\<rparr>"

definition wdt_interrupt :: "mcu \<Rightarrow> mcu option" where
  "wdt_interrupt s =
     (if bit (WDTCSR s) WDIE
      then Some (ISR_WDT_vect (s\<lparr>trace := trace s @ [Wake]\<rparr>))
      else None)"

definition set_sleep_mode :: "8 word \<Rightarrow> mcu \<Rightarrow> mcu" where
  "set_sleep_mode mode s = s\<lparr>SMCR := (SMCR s AND NOT 0x0E) OR mode\<rparr>"

definition sleep_enable :: "mcu \<Rightarrow> mcu" where
  "sleep_enable s = s\<lparr>SMCR := SMCR s OR push_bit SE 1\<rparr>"

definition sleep_cpu :: "mcu \<Rightarrow> mcu option" where
  "sleep_cpu s =
     (if bit (SMCR s) SE
      then wdt_interrupt (s\<lparr>trace := trace s @ [Sleep (PORTB s) (WDTCSR s)]\<rparr>)
      else Some s)"

definition WDDelay :: "16 word \<Rightarrow> mcu \<Rightarrow> mcu option" where
  "WDDelay n s =
     (let s1 = set_sleep_mode SLEEP_MODE_PWR_DOWN s;
          s2 = s1\<lparr>WDTCSR := ucast (push_bit WDIE 1 OR push_bit 2 (n AND 0x8) OR (n AND 0x7))\<rparr>;
          s3 = sleep_enable s2
      in sleep_cpu s3)"

section \<open>Display\<close>

definition DisplayError :: "nat \<Rightarrow> mcu \<Rightarrow> mcu option" where
  "DisplayError pin s =
     (let s1 = s\<lparr>PORTB := PORTB s OR push_bit pin 1\<rparr>
      in case WDDelay 6 s1 of
           None \<Rightarrow> None
         | Some s2 \<Rightarrow>
             (let s3 = s2\<lparr>PORTB := PORTB s2 AND NOT (push_bit pin 1)\<rparr>
              in WDDelay 6 s3))"

definition Pulse :: "nat \<Rightarrow> mcu \<Rightarrow> mcu option" where
  "Pulse pin s =
     (let s1 = s\<lparr>PORTB := PORTB s OR push_bit pin 1\<rparr>
      in case WDDelay 0 s1 of
           None \<Rightarrow> None
         | Some s2 \<Rightarrow>
             (let s3 = s2\<lparr>PORTB := PORTB s2 AND NOT (push_bit pin 1)\<rparr>
              in WDDelay 6 s3))"

text \<open>
  \<open>Flash\<close> counts \<open>i\<close> down from 7 to 0; \<open>zeros\<close> becomes true at the first pulse.
\<close>

function Flash_loop :: "int \<Rightarrow> bool \<Rightarrow> 16 word \<Rightarrow> mcu \<Rightarrow> mcu option" where
  "Flash_loop i zeros val s =
     (if i \<ge> 0
      then (let b = drop_bit (nat i) val AND 1
            in if zeros \<or> b \<noteq> 0 \<or> i = 0
               then (case (if drop_bit (nat i) val AND 1 \<noteq> 0
                           then Pulse RedPin s else Pulse GreenPin s) of
                       None \<Rightarrow> None
                     | Some s1 \<Rightarrow> Flash_loop (i - 1) True val s1)
               else Flash_loop (i - 1) zeros val s)
      else Some s)"
  by pat_completeness auto
termination
  by (relation "measure (\<lambda>(i, zeros, val, s). nat (i + 1))") auto

declare Flash_loop.simps [simp del]

definition Flash :: "16 word \<Rightarrow> mcu \<Rightarrow> mcu option" where
  "Flash val s = Flash_loop 7 False val s"

section \<open>Temperature sensor\<close>

text \<open>
  \<open>DataWords\<close> is the other member of the union: word \<open>k\<close> is bytes \<open>2k\<close> and \<open>2k+1\<close>,
  low byte first (the AVR is little-endian, its \<open>unsigned int\<close> has 16 bits).
\<close>

definition DataWords :: "mcu \<Rightarrow> nat \<Rightarrow> 16 word" where
  "DataWords s k = push_bit 8 (ucast (DataBytes s (2 * k + 1))) OR ucast (DataBytes s (2 * k))"

text \<open>
  The conversion wait \<^verbatim>\<open>while (OneWireRead() != 0xFF);\<close> has no bound: a bus that never
  delivers the byte 0xFF keeps the program in the loop, and the model gives \<open>None\<close>.
\<close>

partial_function (option) Temperature_wait :: "bus \<Rightarrow> mcu \<Rightarrow> mcu option" where
  "Temperature_wait bus s =
     (case OneWireRead bus s of
        (d, s1) \<Rightarrow> if d \<noteq> 0xFF then Temperature_wait bus s1 else Some s1)"

text \<open>
  \<open>Temperature\<close> returns a C \<open>int\<close>, 16 bits on this machine and read as signed.
\<close>

definition Temperature :: "bus \<Rightarrow> mcu \<Rightarrow> (16 word \<times> mcu) option" where
  "Temperature bus s =
     (case OneWireReset bus s of
        (presence, s1) \<Rightarrow>
          if presence \<noteq> 0
          then (case DisplayError RedPin s1 of
                  None \<Rightarrow> None
                | Some s2 \<Rightarrow> Some (0, s2))
          else (let s2 = OneWireWrite (ucast SkipROM) s1;
                    s3 = OneWireWrite (ucast ConvertT) s2
                in case Temperature_wait bus s3 of
                     None \<Rightarrow> None
                   | Some s4 \<Rightarrow>
                       (let (_, s5) = OneWireReset bus s4;
                            s6 = OneWireWrite (ucast SkipROM) s5;
                            s7 = OneWireWrite (ucast ReadScratchpad) s6
                        in case OneWireReadBytes 9 bus s7 of
                             None \<Rightarrow> None
                           | Some s8 \<Rightarrow>
                               (case OneWireCRC 9 s8 of
                                  None \<Rightarrow> None
                                | Some crc \<Rightarrow>
                                    if crc = 0
                                    then Some (DataWords s8 0, s8)
                                    else (case DisplayError GreenPin s8 of
                                            None \<Rightarrow> None
                                          | Some s9 \<Rightarrow> Some (0, s9))))))"

section \<open>Main loop\<close>

definition loop :: "bus \<Rightarrow> mcu \<Rightarrow> mcu option" where
  "loop bus s =
     (case WDDelay 9 s of
        None \<Rightarrow> None
      | Some s1 \<Rightarrow>
          (case WDDelay 9 s1 of
             None \<Rightarrow> None
           | Some s2 \<Rightarrow>
               (case Temperature bus s2 of
                  None \<Rightarrow> None
                | Some (temp, s3) \<Rightarrow>
                    (case (if temp <s 0
                           then (case Pulse GreenPin s3 of
                                   None \<Rightarrow> None
                                 | Some s4 \<Rightarrow> Some (- temp, s4))
                           else Some (temp, s3)) of
                       None \<Rightarrow> None
                     | Some (temp', s5) \<Rightarrow> Flash (signed_drop_bit 4 temp') s5))))"

section \<open>Reference notions\<close>

text \<open>
  The registers as \<open>setup\<close> leaves them: the two LED pins are outputs and low, the
  one-wire pin is an input, nothing has happened yet.
\<close>

definition after_setup :: mcu where
  "after_setup =
     \<lparr>DDRB = 0x06, PORTB = 0, TCNT0 = 0, OCR0A = 0, TIFR0 = 0, WDTCSR = 0, SMCR = 0,
      DataBytes = (\<lambda>_. 0), trace = []\<rparr>"

text \<open>
  The time slot that writes one bit, as the protocol describes it: low for 6 and released
  for 64 microseconds for a 1, low for 60 and released for 10 microseconds for a 0.
\<close>

definition write_slot :: "bool \<Rightarrow> event list" where
  "write_slot b =
     (if b then [Busy DrivenLow 6, Busy Released 64] else [Busy DrivenLow 60, Busy Released 10])"

text \<open>
  The checksum as the protocol describes it: the accumulator starts at 0; each byte is
  XOR-ed into it and followed by eight rounds; a round shifts the accumulator right by
  one and XORs 0x8C in when the bit shifted out was 1.
\<close>

definition crc8_round :: "8 word \<Rightarrow> 8 word" where
  "crc8_round acc =
     (let out = bit acc 0; shifted = drop_bit 1 acc
      in if out then shifted XOR 0x8C else shifted)"

definition crc8_byte :: "8 word \<Rightarrow> 8 word \<Rightarrow> 8 word" where
  "crc8_byte acc b = (crc8_round ^^ 8) (acc XOR b)"

definition crc8_spec :: "8 word list \<Rightarrow> 8 word" where
  "crc8_spec bytes = foldl crc8_byte 0 bytes"

text \<open>
  Flipping bit \<open>k\<close> of byte \<open>i\<close> of the buffer.
\<close>

definition flip_bit_at :: "nat \<Rightarrow> nat \<Rightarrow> mcu \<Rightarrow> mcu" where
  "flip_bit_at i k s = s\<lparr>DataBytes := (DataBytes s)(i := DataBytes s i XOR push_bit k 1)\<rparr>"

text \<open>
  A buffer with given contents, and the scratchpad a DS18B20 holds after power-on
  (85 degrees, with its checksum 0x1C).
\<close>

definition buffer_of :: "8 word list \<Rightarrow> nat \<Rightarrow> 8 word" where
  "buffer_of xs i = (if i < length xs then xs ! i else 0)"

definition power_on_scratchpad :: "8 word list" where
  "power_on_scratchpad = [0x50, 0x05, 0x4B, 0x46, 0x7F, 0xFF, 0x0C, 0x10, 0x1C]"

definition with_scratchpad :: "8 word list \<Rightarrow> mcu" where
  "with_scratchpad xs = after_setup\<lparr>DataBytes := buffer_of xs\<rparr>"

text \<open>
  The value \<open>WDDelay n\<close> writes to WDTCSR: the interrupt enable, and the prescaler
  code \<open>n\<close> with its bit 3 moved to bit 5.
\<close>

definition wdt_armed :: "16 word \<Rightarrow> 8 word" where
  "wdt_armed n = ucast (push_bit WDIE 1 OR push_bit 2 (n AND 0x8) OR (n AND 0x7) :: 16 word)"

text \<open>
  The pattern \<open>Flash\<close> is meant to show: the bits of the value from bit 7 down to
  bit 0 without the zeros in front of the first set bit; the value 0, which has no set
  bit, is shown as a single zero bit. Red stands for 1 and green for 0, and \<open>pulses\<close>
  is a sequence of calls of \<open>Pulse\<close>.
\<close>

definition msb_first :: "'a::len word \<Rightarrow> nat \<Rightarrow> bool list" where
  "msb_first v k = map (bit v) (rev [0..<k])"

definition flash_pattern :: "8 word \<Rightarrow> bool list" where
  "flash_pattern v =
     (let bits = dropWhile Not (msb_first v 8)
      in if bits = [] then [False] else bits)"

definition led :: "bool \<Rightarrow> nat" where
  "led b = (if b then RedPin else GreenPin)"

fun pulses :: "nat list \<Rightarrow> mcu \<Rightarrow> mcu option" where
  "pulses [] s = Some s"
| "pulses (pin # pins) s = (case Pulse pin s of None \<Rightarrow> None | Some s1 \<Rightarrow> pulses pins s1)"

text \<open>
  Notions for the read slots. \<open>low_state\<close> is the drive state \<open>PinLow\<close> produces,
  \<open>read_slot\<close> is the body of the loop of \<open>OneWireRead\<close>, \<open>read_trace d bus t k\<close>
  is the history after \<open>k\<close> read slots that started at history \<open>t\<close>, and
  \<open>read_sample d bus t k\<close> is what PINB reads in the slot after these.
\<close>

definition low_state :: "mcu \<Rightarrow> drive" where
  "low_state s = (if bit (PORTB s) OneWirePin then DrivenHigh else DrivenLow)"

definition read_slot :: "bus \<Rightarrow> mcu \<Rightarrow> 8 word \<times> mcu" where
  "read_slot bus s =
     (let s1 = LowRelease 6 9 s;
          (p, s2) = PinRead bus s1;
          s3 = DelayMicros 55 s2
      in (p, s3))"

fun read_trace :: "drive \<Rightarrow> bus \<Rightarrow> event list \<Rightarrow> nat \<Rightarrow> event list" where
  "read_trace d bus t 0 = t"
| "read_trace d bus t (Suc k) =
     (let t1 = read_trace d bus t k @ [Busy d 6, Busy Released 9]
      in t1 @ [Sample (bus t1), Busy Released 55])"

definition read_sample :: "drive \<Rightarrow> bus \<Rightarrow> event list \<Rightarrow> nat \<Rightarrow> 8 word" where
  "read_sample d bus t k = bus (read_trace d bus t k @ [Busy d 6, Busy Released 9])"

text \<open>
  A loopback bus. It watches the low pulses with which the master opens its time slots,
  and from the ninth slot on answers every slot with the bit the master wrote eight slots
  before: it holds the line low at the sample when that pulse lasted 15 microseconds or
  longer (a written 0) and leaves it to the pull-up otherwise. \<open>seen\<close> is the number
  of low pulses that happened before the bus was attached.
\<close>

fun low_pulses :: "event list \<Rightarrow> nat list" where
  "low_pulses [] = []"
| "low_pulses (Busy DrivenLow n # t) = n # low_pulses t"
| "low_pulses (e # t) = low_pulses t"

definition loopback :: "nat \<Rightarrow> bus" where
  "loopback seen h =
     (let ps = drop seen (low_pulses h); k = length ps
      in if 9 \<le> k \<and> 15 \<le> ps ! (k - 9) then 0 else 1)"

text \<open>
  A bus given by a stream of PINB values: the \<open>k\<close>-th read of PINB gives \<open>f k\<close>.
\<close>

fun nsamples :: "event list \<Rightarrow> nat" where
  "nsamples [] = 0"
| "nsamples (Sample p # t) = Suc (nsamples t)"
| "nsamples (e # t) = nsamples t"

definition stream_bus :: "(nat \<Rightarrow> 8 word) \<Rightarrow> bus" where
  "stream_bus f h = f (nsamples h)"

text \<open>
  Notions for the conversion wait: the number of PINB reads of a run, a byte slot whose
  eight samples all read high, a sensor that releases the line after the first sample
  of the wait, and one that never releases it.
\<close>

definition samples_taken :: "mcu \<Rightarrow> nat" where
  "samples_taken s = nsamples (trace s)"

definition byte_high :: "(nat \<Rightarrow> 8 word) \<Rightarrow> nat \<Rightarrow> bool" where
  "byte_high f n = list_all (\<lambda>i. bit (f (n + i)) OneWirePin) [0..<8]"

definition late_release :: "nat \<Rightarrow> 8 word" where
  "late_release k = (if k = 0 then 0 else 1)"

definition held_low :: "nat \<Rightarrow> 8 word" where
  "held_low k = 0"

text \<open>
  Steps 2 to 5 of the read cycle, the part of \<open>Temperature\<close> between the presence test
  and the checksum test: the two commands that start a conversion, the wait, the second
  reset (its result is dropped), the two commands that ask for the scratchpad, and the
  nine bytes read into the buffer.
\<close>

definition acquire :: "bus \<Rightarrow> mcu \<Rightarrow> mcu option" where
  "acquire bus s1 =
     (let s2 = OneWireWrite (ucast SkipROM) s1;
          s3 = OneWireWrite (ucast ConvertT) s2
      in case Temperature_wait bus s3 of
           None \<Rightarrow> None
         | Some s4 \<Rightarrow>
             (let (_, s5) = OneWireReset bus s4;
                  s6 = OneWireWrite (ucast SkipROM) s5;
                  s7 = OneWireWrite (ucast ReadScratchpad) s6
              in OneWireReadBytes 9 bus s7))"

text \<open>
  What an error report looks like from outside: the LED on pin \<open>pin\<close> lit during a sleep
  of one second (watchdog code 6), then dark during another.
\<close>

definition error_flash :: "nat \<Rightarrow> 8 word \<Rightarrow> event list" where
  "error_flash pin portb =
     [Sleep (portb OR push_bit pin 1) 0x46, Wake,
      Sleep (portb AND NOT (push_bit pin 1)) 0x46, Wake]"

text \<open>
  Simulated sensors, as streams of samples counted from the start of a read cycle. The
  sensor \<open>sensor_stream bs\<close> answers both resets with a presence pulse (samples 0 and 9),
  has finished its conversion at once (samples 1 to 8 read high) and then sends the bytes
  \<open>bs\<close>, bit 0 first. With \<open>no_sensor\<close> the line stays high. Two more scratchpads: a
  reading of zero degrees with its checksum, and the power-on scratchpad with bit 0 of
  byte 0 flipped.
\<close>

definition sensor_stream :: "8 word list \<Rightarrow> nat \<Rightarrow> 8 word" where
  "sensor_stream bs k =
     (if k = 0 \<or> k = 9 then 0
      else if k < 9 then 1
      else if k - 10 < 8 * length bs \<and> bit (bs ! ((k - 10) div 8)) ((k - 10) mod 8) then 1
      else 0)"

definition no_sensor :: "nat \<Rightarrow> 8 word" where
  "no_sensor k = 1"

definition zero_scratchpad :: "8 word list" where
  "zero_scratchpad = [0x00, 0x00, 0x4B, 0x46, 0x7F, 0xFF, 0x10, 0x10, 0x69]"

definition corrupted_scratchpad :: "8 word list" where
  "corrupted_scratchpad = [0x51, 0x05, 0x4B, 0x46, 0x7F, 0xFF, 0x0C, 0x10, 0x1C]"

text \<open>
  The part of \<open>loop\<close> that follows the 16 second pause: the measurement, the sign
  pulse for a negative value, and the display of the degrees.
\<close>

definition measure_and_flash :: "bus \<Rightarrow> mcu \<Rightarrow> mcu option" where
  "measure_and_flash bus s2 =
     (case Temperature bus s2 of
        None \<Rightarrow> None
      | Some (temp, s3) \<Rightarrow>
          (case (if temp <s 0
                 then (case Pulse GreenPin s3 of
                         None \<Rightarrow> None
                       | Some s4 \<Rightarrow> Some (- temp, s4))
                 else Some (temp, s3)) of
             None \<Rightarrow> None
           | Some (temp', s5) \<Rightarrow> Flash (signed_drop_bit 4 temp') s5))"

section \<open>Properties\<close>

subsection \<open>Pins and delays\<close>

lemma and_1_bit0:
  fixes w :: "'a::len word"
  shows "w AND 1 = (if bit w 0 then 1 else 0)"
  by (simp add: and_one_eq bit_0 mod_2_eq_odd)

lemma and_1_if:
  fixes w :: "'a::len word"
  shows "(w AND 1 = 0) = (\<not> bit w 0)" "(w AND 1 = 1) = bit w 0" "(w AND 1 \<noteq> 0) = bit w 0"
  by (simp_all add: and_1_bit0)

lemma DelayMicros_trace:
  "trace (DelayMicros m s) = trace s @ [Busy (line s) (if m = 0 then 65536 else unat m)]"
  by (simp add: DelayMicros_def wait_compare_def line_def Let_def)

lemma DelayMicros_fields:
  "DDRB (DelayMicros m s) = DDRB s" "PORTB (DelayMicros m s) = PORTB s"
  "WDTCSR (DelayMicros m s) = WDTCSR s" "SMCR (DelayMicros m s) = SMCR s"
  "DataBytes (DelayMicros m s) = DataBytes s"
  by (simp_all add: DelayMicros_def wait_compare_def Let_def)

lemma line_DelayMicros: "line (DelayMicros m s) = line s"
  by (simp add: line_def DelayMicros_fields)

lemma line_PinLow:
  "line (PinLow s) = (if bit (PORTB s) OneWirePin then DrivenHigh else DrivenLow)"
  by (simp add: line_def PinLow_def OneWirePin_def bit_or_iff)

lemma line_PinRelease: "line (PinRelease s) = Released"
  by (simp add: line_def PinRelease_def OneWirePin_def bit_and_iff bit_not_iff)

lemma PinLow_fields:
  "PORTB (PinLow s) = PORTB s" "trace (PinLow s) = trace s"
  "WDTCSR (PinLow s) = WDTCSR s" "SMCR (PinLow s) = SMCR s"
  "DataBytes (PinLow s) = DataBytes s"
  by (simp_all add: PinLow_def)

lemma PinRelease_fields:
  "PORTB (PinRelease s) = PORTB s" "trace (PinRelease s) = trace s"
  "WDTCSR (PinRelease s) = WDTCSR s" "SMCR (PinRelease s) = SMCR s"
  "DataBytes (PinRelease s) = DataBytes s"
  by (simp_all add: PinRelease_def)

lemma LowRelease_trace:
  "trace (LowRelease lo hi s) =
     trace s @ [Busy (if bit (PORTB s) OneWirePin then DrivenHigh else DrivenLow)
                  (if lo = 0 then 65536 else unat lo),
                Busy Released (if hi = 0 then 65536 else unat hi)]"
  by (simp add: LowRelease_def Let_def DelayMicros_trace line_PinLow line_PinRelease
      PinLow_fields PinRelease_fields DelayMicros_fields)

lemma LowRelease_fields:
  "PORTB (LowRelease lo hi s) = PORTB s"
  "WDTCSR (LowRelease lo hi s) = WDTCSR s" "SMCR (LowRelease lo hi s) = SMCR s"
  "DataBytes (LowRelease lo hi s) = DataBytes s"
  by (simp_all add: LowRelease_def Let_def PinLow_fields PinRelease_fields DelayMicros_fields)

lemma line_LowRelease: "line (LowRelease lo hi s) = Released"
  by (simp add: LowRelease_def Let_def line_DelayMicros line_PinRelease)

lemma PinRead_simps:
  "fst (PinRead bus s) = (if bit (bus (trace s)) OneWirePin then 1 else 0)"
  "trace (snd (PinRead bus s)) = trace s @ [Sample (bus (trace s))]"
  "line (snd (PinRead bus s)) = line s"
  "PORTB (snd (PinRead bus s)) = PORTB s"
  "WDTCSR (snd (PinRead bus s)) = WDTCSR s" "SMCR (snd (PinRead bus s)) = SMCR s"
  "DataBytes (snd (PinRead bus s)) = DataBytes s"
  by (simp_all add: PinRead_def Let_def line_def OneWirePin_def and_1_bit0)

lemma after_setup_fields:
  "PORTB after_setup = 0" "trace after_setup = []" "WDTCSR after_setup = 0"
  "DataBytes after_setup = (\<lambda>_. 0)"
  by (simp_all add: after_setup_def)

subsection \<open>Reset\<close>

text \<open>
  Claim C4. With the one-wire bit of PORTB clear (as \<open>setup\<close> leaves it and as it
  stays), \<open>OneWireReset\<close> drives the line low for 480 microseconds, releases it, waits
  70 microseconds, samples PINB, and waits another 410 microseconds. It returns 0, the
  value that stands for "device present", exactly when the sampled line is low, and 1
  exactly when it is high.
\<close>

theorem OneWireReset_timing:
  assumes "\<not> bit (PORTB s) OneWirePin"
  shows "(let pinb = bus (trace s @ [Busy DrivenLow 480, Busy Released 70])
          in trace (snd (OneWireReset bus s)) =
               trace s @ [Busy DrivenLow 480, Busy Released 70, Sample pinb, Busy Released 410]
           \<and> (fst (OneWireReset bus s) = 0 \<longleftrightarrow> \<not> bit pinb OneWirePin)
           \<and> (fst (OneWireReset bus s) = 1 \<longleftrightarrow> bit pinb OneWirePin))"
  using assms
  by (simp add: OneWireReset_def Let_def split_def PinRead_simps LowRelease_trace
      DelayMicros_trace line_LowRelease)

theorem OneWireReset_timing_witness:
  "\<not> bit (PORTB after_setup) OneWirePin
   \<and> trace (snd (OneWireReset (\<lambda>h. 0) after_setup)) =
       [Busy DrivenLow 480, Busy Released 70, Sample 0, Busy Released 410]
   \<and> fst (OneWireReset (\<lambda>h. 0) after_setup) = 0
   \<and> fst (OneWireReset (\<lambda>h. 1) after_setup) = 1"
  using OneWireReset_timing [of after_setup "\<lambda>h. 0"] OneWireReset_timing [of after_setup "\<lambda>h. 1"]
  by (simp add: after_setup_fields OneWirePin_def Let_def)

subsection \<open>Writing a byte\<close>

lemma OneWireWrite_loop_trace:
  "\<not> bit (PORTB s) OneWirePin \<Longrightarrow>
   trace (OneWireWrite_loop k data s) =
     trace s @ concat (map (\<lambda>i. write_slot (bit data i)) [0..<k])"
proof (induction k arbitrary: data s)
  case 0
  then show ?case by simp
next
  case (Suc k)
  have up: "[0..<Suc k] = 0 # map Suc [0..<k]"
    by (simp add: upt_conv_Cons map_Suc_upt del: upt_Suc)
  show ?case
    using Suc.prems
    by (simp add: Let_def Suc.IH LowRelease_fields LowRelease_trace up write_slot_def
        bit_drop_bit_eq and_1_if o_def del: upt_Suc)
qed

text \<open>
  Claim C5. \<open>OneWireWrite\<close> emits the eight bits of the byte, bit 0 first, one time slot
  per bit: low for 6 and released for 64 microseconds for a 1, low for 60 and released
  for 10 microseconds for a 0.
\<close>

theorem OneWireWrite_slots:
  "\<not> bit (PORTB s) OneWirePin \<Longrightarrow>
   trace (OneWireWrite data s) =
     trace s @ concat (map (\<lambda>i. write_slot (bit data i)) [0..<8])"
  unfolding OneWireWrite_def by (rule OneWireWrite_loop_trace)

theorem OneWireWrite_slots_witness:
  "\<not> bit (PORTB after_setup) OneWirePin
   \<and> trace (OneWireWrite 0xA5 after_setup) =
     [Busy DrivenLow 6, Busy Released 64, Busy DrivenLow 60, Busy Released 10,
      Busy DrivenLow 6, Busy Released 64, Busy DrivenLow 60, Busy Released 10,
      Busy DrivenLow 60, Busy Released 10, Busy DrivenLow 6, Busy Released 64,
      Busy DrivenLow 60, Busy Released 10, Busy DrivenLow 6, Busy Released 64]"
  using OneWireWrite_slots [of after_setup "0xA5"]
  by (simp add: after_setup_fields write_slot_def OneWirePin_def upt_rec)

subsection \<open>Checksum\<close>

lemma OneWireCRC_bits_funpow: "OneWireCRC_bits k crc = (crc8_round ^^ k) crc"
  by (induction k arbitrary: crc)
     (simp_all add: crc8_round_def Let_def and_1_if funpow_swap1)

lemma OneWireCRC_bits_byte: "OneWireCRC_bits 8 (crc XOR b) = crc8_byte crc b"
  by (simp only: crc8_byte_def OneWireCRC_bits_funpow)

lemma OneWireCRC_loop_spec:
  "nat bytes \<le> 9 \<Longrightarrow>
   OneWireCRC_loop j bytes crc s = Some (foldl crc8_byte crc (map (DataBytes s) [j..<nat bytes]))"
proof (induction j bytes crc s rule: OneWireCRC_loop.induct)
  case (1 j bytes crc s)
  show ?case
  proof (cases "int j < bytes")
    case True
    then have j: "j < nat bytes" "j < 9" using "1.prems" by auto
    then have up: "[j..<nat bytes] = j # [j + 1..<nat bytes]"
      by (simp add: upt_conv_Cons)
    show ?thesis
      using True j "1.IH" [OF True j(2) "1.prems"]
      by (subst OneWireCRC_loop.simps)
         (simp add: up OneWireCRC_bits_byte del: upt_Suc)
  next
    case False
    then have "nat bytes \<le> j" by auto
    then show ?thesis
      using False by (subst OneWireCRC_loop.simps) simp
  qed
qed

lemma OneWireCRC_crc8_spec:
  "n \<le> 9 \<Longrightarrow>
   OneWireCRC n s = Some (crc8_spec (map (DataBytes s) [0..<nat n]))"
  unfolding OneWireCRC_def crc8_spec_def
  by (rule OneWireCRC_loop_spec) simp

lemma OneWireCRC_overrun: "9 < n \<Longrightarrow> OneWireCRC n s = None"
  unfolding OneWireCRC_def
  by (simp add: OneWireCRC_loop.simps [of _ n])

lemma crc8_round_xor: "crc8_round (a XOR b) = crc8_round a XOR crc8_round b"
proof -
  define x y where "x = drop_bit 1 a" and "y = drop_bit 1 b"
  have d: "drop_bit 1 (a XOR b) = x XOR y"
    unfolding x_def y_def by (rule drop_bit_xor)
  have c: "(x XOR 0x8C) XOR (y XOR 0x8C) = x XOR y" "(x XOR 0x8C) XOR y = (x XOR y) XOR 0x8C"
    "x XOR (y XOR 0x8C) = (x XOR y) XOR 0x8C"
    by (simp_all add: ac_simps)
  show ?thesis
    unfolding crc8_round_def Let_def d bit_xor_iff x_def [symmetric] y_def [symmetric]
    by (cases "bit a 0"; cases "bit b 0") (simp_all only: c if_True if_False simp_thms)
qed

lemma crc8_round_0 [simp]: "crc8_round 0 = 0"
  by (simp add: crc8_round_def)

lemma crc8_round_eq_0: "crc8_round a = 0 \<longleftrightarrow> a = 0"
proof
  assume h: "crc8_round a = 0"
  have "unat a < 256"
    using unsigned_less [of a, where 'a = nat] by simp
  then have lt: "unat (drop_bit 1 a) < 128"
    by (simp add: unat_drop_bit_eq drop_bit_eq_div unat_div)
  show "a = 0"
  proof (cases "bit a 0")
    case True
    with h have "drop_bit 1 a XOR 0x8C = 0" by (simp add: crc8_round_def)
    moreover have "drop_bit 1 a = (drop_bit 1 a XOR 0x8C) XOR 0x8C"
      by (simp only: xor.assoc xor_self_eq xor.right_neutral)
    ultimately have "drop_bit 1 a = 0x8C" by simp
    with lt show ?thesis by simp
  next
    case False
    with h have z: "drop_bit 1 a = 0" by (simp add: crc8_round_def)
    show ?thesis
    proof (rule bit_word_eqI)
      fix n assume "n < LENGTH(8)"
      show "bit a n = bit (0 :: 8 word) n"
      proof (cases n)
        case 0
        with False show ?thesis by simp
      next
        case (Suc m)
        have "bit (drop_bit 1 a) m = bit a (Suc m)" by (simp add: bit_drop_bit_eq)
        with z Suc show ?thesis by simp
      qed
    qed
  qed
qed simp

lemma funpow_funpow: "(f ^^ m) ((f ^^ n) x) = (f ^^ (m + n)) x"
  by (simp add: funpow_add)

lemma crc8_funpow_xor: "(crc8_round ^^ k) (a XOR b) = (crc8_round ^^ k) a XOR (crc8_round ^^ k) b"
  by (induction k) (simp_all add: crc8_round_xor)

lemma crc8_funpow_eq_0: "(crc8_round ^^ k) a = 0 \<longleftrightarrow> a = 0"
  by (induction k) (simp_all add: crc8_round_eq_0)

lemma crc8_byte_xor:
  "crc8_byte (a XOR e) b = crc8_byte a b XOR (crc8_round ^^ 8) e"
proof -
  have "(a XOR e) XOR b = (a XOR b) XOR e" by (simp add: ac_simps)
  then show ?thesis by (simp only: crc8_byte_def crc8_funpow_xor)
qed

lemma foldl_crc8_xor:
  "foldl crc8_byte (a XOR e) xs = foldl crc8_byte a xs XOR (crc8_round ^^ (8 * length xs)) e"
proof (induction xs arbitrary: a e)
  case Nil
  then show ?case by simp
next
  case (Cons x xs)
  have "8 * length xs + 8 = 8 * length (x # xs)" by simp
  then have "(crc8_round ^^ (8 * length xs)) ((crc8_round ^^ 8) e) = (crc8_round ^^ (8 * length (x # xs))) e"
    by (simp only: funpow_funpow)
  then show ?case
    by (simp only: foldl_Cons crc8_byte_xor Cons.IH)
qed

lemma map_upd_split:
  assumes "i < n"
  shows "map (d(i := v)) [0..<n] = map d [0..<i] @ v # map d [Suc i..<n]"
proof -
  have "[0..<n] = [0..<i] @ [i..<n]"
    using assms upt_add_eq_append [of 0 i "n - i"] by simp
  then have "[0..<n] = [0..<i] @ i # [Suc i..<n]"
    using assms by (simp add: upt_conv_Cons)
  then show ?thesis by simp
qed

lemma crc8_spec_flip:
  assumes "i < n"
  shows "crc8_spec (map (d(i := d i XOR x)) [0..<n]) =
           crc8_spec (map d [0..<n]) XOR (crc8_round ^^ (8 * (n - i))) x"
proof -
  let ?acc = "foldl crc8_byte 0 (map d [0..<i])"
  have l: "crc8_spec (map (d(i := d i XOR x)) [0..<n]) =
        foldl crc8_byte (crc8_byte ?acc (d i XOR x)) (map d [Suc i..<n])"
    by (simp add: crc8_spec_def map_upd_split [OF assms])
  have r: "crc8_spec (map d [0..<n]) = foldl crc8_byte (crc8_byte ?acc (d i)) (map d [Suc i..<n])"
    using map_upd_split [OF assms, of d "d i"] by (simp add: crc8_spec_def)
  have b: "crc8_byte ?acc (d i XOR x) = crc8_byte ?acc (d i) XOR (crc8_round ^^ 8) x"
    by (simp only: crc8_byte_def crc8_funpow_xor xor.assoc [symmetric])
  have f: "(crc8_round ^^ (8 * length (map d [Suc i..<n]))) ((crc8_round ^^ 8) x) =
           (crc8_round ^^ (8 * (n - i))) x"
  proof -
    have "8 * length (map d [Suc i..<n]) + 8 = 8 * (n - i)" using assms by simp
    then show ?thesis
      by (simp only: funpow_funpow)
  qed
  show ?thesis
    by (simp only: l r b foldl_crc8_xor f)
qed

lemma map_buffer_of: "map (buffer_of xs) [0..<length xs] = xs"
proof -
  have "map (buffer_of xs) [0..<length xs] = map ((!) xs) [0..<length xs]"
    by (rule map_cong) (simp_all add: buffer_of_def)
  then show ?thesis by (simp only: map_nth)
qed

lemma DataBytes_with_scratchpad:
  "map (DataBytes (with_scratchpad power_on_scratchpad)) [0..<9] = power_on_scratchpad"
proof -
  have l: "9 = length power_on_scratchpad" by (simp add: power_on_scratchpad_def)
  have d: "DataBytes (with_scratchpad power_on_scratchpad) = buffer_of power_on_scratchpad"
    by (simp add: with_scratchpad_def)
  show ?thesis by (simp only: l d map_buffer_of)
qed

lemma crc8_byte_unfold:
  "crc8_byte acc b = crc8_round (crc8_round (crc8_round (crc8_round (crc8_round (crc8_round
     (crc8_round (crc8_round (acc XOR b))))))))"
proof -
  have e: "(8 :: nat) = Suc (Suc (Suc (Suc (Suc (Suc (Suc (Suc 0)))))))" by simp
  show ?thesis unfolding crc8_byte_def e by (simp only: funpow.simps o_def id_def)
qed

lemma crc8_power_on: "crc8_spec power_on_scratchpad = 0"
  by (simp add: crc8_spec_def power_on_scratchpad_def crc8_byte_unfold crc8_round_def)

lemma OneWireCRC_power_on: "OneWireCRC 9 (with_scratchpad power_on_scratchpad) = Some 0"
  using OneWireCRC_loop_spec [of 9 0 0 "with_scratchpad power_on_scratchpad"]
  by (simp add: OneWireCRC_def DataBytes_with_scratchpad crc8_power_on [unfolded crc8_spec_def])

text \<open>
  Claim C3. For a byte count \<open>n\<close> within the nine bytes of the buffer, \<open>OneWireCRC n\<close>
  is the reference CRC-8 of the first \<open>n\<close> bytes (none for \<open>n \<le> 0\<close>): accumulator 0,
  each byte XOR-ed in and followed by eight rounds of shift right and conditional XOR
  with 0x8C. The validity test of the program, a result of 0, is therefore the test that
  the reference checksum is 0.
\<close>

theorem OneWireCRC_reference:
  "n \<le> 9 \<Longrightarrow>
   OneWireCRC n s = Some (crc8_spec (map (DataBytes s) [0..<nat n]))
   \<and> (OneWireCRC n s = Some 0 \<longleftrightarrow> crc8_spec (map (DataBytes s) [0..<nat n]) = 0)"
  using OneWireCRC_crc8_spec [of n s] by simp

theorem OneWireCRC_reference_witness:
  "(9 :: int) \<le> 9 \<and> OneWireCRC 9 (with_scratchpad power_on_scratchpad) = Some 0"
  using OneWireCRC_reference [of 9 "with_scratchpad power_on_scratchpad"]
  by (simp add: DataBytes_with_scratchpad crc8_power_on)

text \<open>
  Claim C8. When the checksum over the nine bytes of the buffer is 0, flipping any single
  bit of any of the nine bytes gives a buffer whose checksum is not 0.
\<close>

theorem OneWireCRC_single_bit:
  assumes "OneWireCRC 9 s = Some 0" and "i < 9" and "k < 8"
  shows "\<exists>c. OneWireCRC 9 (flip_bit_at i k s) = Some c \<and> c \<noteq> 0"
proof -
  have z: "crc8_spec (map (DataBytes s) [0..<9]) = 0"
    using assms(1) OneWireCRC_crc8_spec [of 9 s] by simp
  have nz: "(push_bit k 1 :: 8 word) \<noteq> 0"
    using assms(3) by (simp add: push_bit_eq_mult) 
  have "OneWireCRC 9 (flip_bit_at i k s) =
          Some (crc8_spec (map ((DataBytes s)(i := DataBytes s i XOR push_bit k 1)) [0..<9]))"
    using OneWireCRC_crc8_spec [of 9 "flip_bit_at i k s"] by (simp add: flip_bit_at_def)
  also have "\<dots> = Some ((crc8_round ^^ (8 * (9 - i))) (push_bit k 1))"
    using crc8_spec_flip [OF assms(2), of "DataBytes s" "push_bit k 1"] z by simp
  finally show ?thesis
    using nz by (simp add: crc8_funpow_eq_0)
qed



theorem OneWireCRC_single_bit_witness:
  "OneWireCRC 9 (with_scratchpad power_on_scratchpad) = Some 0 \<and> (0 :: nat) < 9 \<and> (0 :: nat) < 8
   \<and> (\<exists>c. OneWireCRC 9 (flip_bit_at 0 0 (with_scratchpad power_on_scratchpad)) = Some c \<and> c \<noteq> 0)"
  using OneWireCRC_power_on OneWireCRC_single_bit [OF OneWireCRC_power_on, of 0 0] by simp

subsection \<open>Watchdog sleep\<close>

lemma wdt_armed_WDIE: "bit (wdt_armed n) WDIE"
  by (simp add: wdt_armed_def WDIE_def bit_ucast_iff bit_or_iff bit_push_bit_iff)

lemma wdt_armed_values: "wdt_armed 9 = 0x61" "wdt_armed 6 = 0x46" "wdt_armed 0 = 0x40"
  by (simp_all add: wdt_armed_def WDIE_def)

lemma WDDelay_Some:
  "WDDelay n s =
     Some (s\<lparr>SMCR := ((SMCR s AND NOT 0x0E) OR SLEEP_MODE_PWR_DOWN) OR push_bit SE 1,
             WDTCSR := 0,
             trace := trace s @ [Sleep (PORTB s) (wdt_armed n), Wake]\<rparr>)"
proof -
  have se: "bit (((SMCR s AND NOT 0x0E) OR SLEEP_MODE_PWR_DOWN) OR push_bit SE 1) SE"
    by (simp add: SE_def bit_or_iff)
  show ?thesis
    using wdt_armed_WDIE [of n] se
    by (simp add: WDDelay_def Let_def set_sleep_mode_def sleep_enable_def sleep_cpu_def
        wdt_interrupt_def ISR_WDT_vect_def wdt_armed_def)
qed

lemma sleep_cpu_unarmed:
  "bit (SMCR t) SE \<Longrightarrow> \<not> bit (WDTCSR t) WDIE \<Longrightarrow> sleep_cpu t = None"
  by (simp add: sleep_cpu_def wdt_interrupt_def)

lemma sleep_cpu_disabled: "\<not> bit (SMCR t) SE \<Longrightarrow> sleep_cpu t = Some t"
  by (simp add: sleep_cpu_def)

lemma ISR_WDT_vect_effect: "ISR_WDT_vect t = t\<lparr>WDTCSR := 0\<rparr>"
  by (simp add: ISR_WDT_vect_def)

lemma wdt_interrupt_disarmed: "WDTCSR t = 0 \<Longrightarrow> wdt_interrupt t = None"
  by (simp add: wdt_interrupt_def)

lemma loop_pause:
  "loop bus s = Option.bind (Option.bind (WDDelay 9 s) (WDDelay 9)) (measure_and_flash bus)"
  by (simp add: loop_def measure_and_flash_def WDDelay_Some)

text \<open>
  Claim C7. Every call of \<open>WDDelay\<close> is one-shot. The call selects power-down mode,
  arms the watchdog interrupt (WDIE is set in the value it writes, which the \<open>Sleep\<close>
  event records), enables sleep and sleeps; it returns after exactly one wake event and
  has changed nothing but SMCR, WDTCSR and the history. The handler, whatever the state
  it interrupts, does nothing but the write that disarms: it stores 0 in WDTCSR, which
  clears WDIE together with the prescaler bits, and after it has run no further watchdog
  interrupt can be taken. So after the call WDIE is clear and nothing is left over for
  the next call, which has to arm the watchdog again. Two calls with code 9 in a row,
  the 16 second pause with which \<open>loop\<close> begins, therefore give exactly two wake events,
  each followed by a disarmed watchdog.
\<close>

theorem WDDelay_one_shot:
  "WDDelay n s =
     Some (s\<lparr>SMCR := ((SMCR s AND NOT 0x0E) OR SLEEP_MODE_PWR_DOWN) OR push_bit SE 1,
             WDTCSR := 0,
             trace := trace s @ [Sleep (PORTB s) (wdt_armed n), Wake]\<rparr>)
   \<and> bit (wdt_armed n) WDIE
   \<and> (\<forall>t. ISR_WDT_vect t = t\<lparr>WDTCSR := 0\<rparr>)
   \<and> (\<forall>t. wdt_interrupt (ISR_WDT_vect t) = None)
   \<and> (\<exists>s1 s2.
        WDDelay n s = Some s1
      \<and> trace s1 = trace s @ [Sleep (PORTB s) (wdt_armed n), Wake]
      \<and> ISR_WDT_vect s1 = s1\<lparr>WDTCSR := 0\<rparr>
      \<and> \<not> bit (WDTCSR s1) WDIE
      \<and> wdt_interrupt s1 = None
      \<and> Option.bind (WDDelay 9 s) (WDDelay 9) = Some s2
      \<and> trace s2 = trace s @ [Sleep (PORTB s) 0x61, Wake, Sleep (PORTB s) 0x61, Wake]
      \<and> count_list (trace s2) Wake = count_list (trace s) Wake + 2
      \<and> wdt_interrupt s2 = None
      \<and> loop bus s = measure_and_flash bus s2)"
  by (simp add: WDDelay_Some wdt_armed_WDIE wdt_interrupt_disarmed ISR_WDT_vect_effect
      wdt_armed_values loop_pause)

theorem WDDelay_one_shot_witness:
  "WDDelay 9 after_setup =
     Some (after_setup\<lparr>SMCR := 0x05, WDTCSR := 0, trace := [Sleep 0 0x61, Wake]\<rparr>)
   \<and> map_option trace (Option.bind (WDDelay 9 after_setup) (WDDelay 9)) =
       Some [Sleep 0 0x61, Wake, Sleep 0 0x61, Wake]
   \<and> ISR_WDT_vect (after_setup\<lparr>WDTCSR := 0x61\<rparr>) = after_setup
   \<and> sleep_cpu (after_setup\<lparr>SMCR := 0x05\<rparr>) = None
   \<and> sleep_cpu (after_setup\<lparr>WDTCSR := 0x61\<rparr>) = Some (after_setup\<lparr>WDTCSR := 0x61\<rparr>)"
proof -
  have a: "WDDelay 9 after_setup =
     Some (after_setup\<lparr>SMCR := 0x05, WDTCSR := 0, trace := [Sleep 0 0x61, Wake]\<rparr>)"
    using WDDelay_one_shot [of 9 after_setup]
    by (simp add: after_setup_def wdt_armed_values SLEEP_MODE_PWR_DOWN_def SE_def)
  from WDDelay_one_shot [of 9 after_setup "\<lambda>h. 0"] obtain s2 where
    "Option.bind (WDDelay 9 after_setup) (WDDelay 9) = Some s2"
    "trace s2 = trace after_setup @ [Sleep (PORTB after_setup) 0x61, Wake,
                                     Sleep (PORTB after_setup) 0x61, Wake]"
    by blast
  then have b: "map_option trace (Option.bind (WDDelay 9 after_setup) (WDDelay 9)) =
       Some [Sleep 0 0x61, Wake, Sleep 0 0x61, Wake]"
    by (simp add: after_setup_fields)
  have c: "ISR_WDT_vect (after_setup\<lparr>WDTCSR := 0x61\<rparr>) = after_setup"
    using WDDelay_one_shot [of 9 after_setup] by (simp add: after_setup_def)
  have d: "sleep_cpu (after_setup\<lparr>SMCR := 0x05\<rparr>) = None"
    by (rule sleep_cpu_unarmed) (simp_all add: after_setup_def SE_def WDIE_def)
  have e: "sleep_cpu (after_setup\<lparr>WDTCSR := 0x61\<rparr>) = Some (after_setup\<lparr>WDTCSR := 0x61\<rparr>)"
    by (rule sleep_cpu_disabled) (simp add: after_setup_def SE_def)
  from a b c d e show ?thesis by simp
qed

subsection \<open>Display\<close>

lemma or_and_not_same:
  fixes x :: "'a::len word"
  shows "(x OR b) AND NOT b = x AND NOT b"
  by (rule bit_word_eqI) (auto simp add: bit_and_iff bit_or_iff bit_not_iff)

lemma Pulse_result:
  "\<exists>s'. Pulse pin s = Some s'
     \<and> trace s' = trace s @ [Sleep (PORTB s OR push_bit pin 1) 0x40, Wake,
                              Sleep (PORTB s AND NOT (push_bit pin 1)) 0x46, Wake]
     \<and> PORTB s' = PORTB s AND NOT (push_bit pin 1)
     \<and> DDRB s' = DDRB s \<and> DataBytes s' = DataBytes s \<and> WDTCSR s' = 0"
  by (simp add: Pulse_def Let_def WDDelay_Some wdt_armed_values or_and_not_same)

lemma DisplayError_result:
  "\<exists>s'. DisplayError pin s = Some s'
     \<and> trace s' = trace s @ [Sleep (PORTB s OR push_bit pin 1) 0x46, Wake,
                              Sleep (PORTB s AND NOT (push_bit pin 1)) 0x46, Wake]
     \<and> PORTB s' = PORTB s AND NOT (push_bit pin 1)
     \<and> DDRB s' = DDRB s \<and> DataBytes s' = DataBytes s \<and> WDTCSR s' = 0"
  by (simp add: DisplayError_def Let_def WDDelay_Some wdt_armed_values or_and_not_same)

lemma Flash_bit:
  fixes val :: "16 word"
  shows "(drop_bit n val AND 1 \<noteq> 0) = bit val n"
  unfolding and_1_if by (simp add: bit_drop_bit_eq)

lemma Flash_loop_step:
  assumes "0 \<le> i"
  shows "Flash_loop i zeros val s =
     (if zeros \<or> bit val (nat i) \<or> i = 0
      then (case Pulse (led (bit val (nat i))) s of
              None \<Rightarrow> None
            | Some s1 \<Rightarrow> Flash_loop (i - 1) True val s1)
      else Flash_loop (i - 1) zeros val s)"
proof -
  have b: "(drop_bit (nat i) val AND 1 \<noteq> 0) = bit val (nat i)"
    by (rule Flash_bit)
  have p: "(if bit val (nat i) then Pulse RedPin s else Pulse GreenPin s) =
             Pulse (led (bit val (nat i))) s"
    by (simp add: led_def)
  show ?thesis
    by (subst Flash_loop.simps) (simp only: Let_def b p assms if_True)
qed

lemma Flash_loop_done: "i < 0 \<Longrightarrow> Flash_loop i zeros val s = Some s"
  by (subst Flash_loop.simps) simp

lemma msb_first_simps:
  "msb_first v 0 = []" "msb_first v (Suc k) = bit v k # msb_first v k"
  by (simp_all add: msb_first_def)

lemma Flash_loop_Suc:
  "Flash_loop (int (Suc k) - 1) zeros val s =
     (if zeros \<or> bit val k \<or> k = 0
      then (case Pulse (led (bit val k)) s of
              None \<Rightarrow> None
            | Some s1 \<Rightarrow> Flash_loop (int k - 1) True val s1)
      else Flash_loop (int k - 1) zeros val s)"
proof -
  have i: "int (Suc k) - 1 = int k" by simp
  show ?thesis
    unfolding i using Flash_loop_step [of "int k" zeros val s] by simp
qed

lemma Flash_loop_0: "Flash_loop (int 0 - 1) zeros val s = Some s"
  by (rule Flash_loop_done) simp

lemma pulses_Cons:
  "pulses (pin # pins) s = (case Pulse pin s of None \<Rightarrow> None | Some s1 \<Rightarrow> pulses pins s1)"
  by simp

lemma Flash_loop_True:
  "Flash_loop (int k - 1) True val s = pulses (map led (msb_first val k)) s"
proof (induction k arbitrary: s)
  case 0
  show ?case by (simp only: Flash_loop_0 msb_first_simps list.map pulses.simps)
next
  case (Suc k)
  show ?case
    by (simp only: Flash_loop_Suc Suc.IH msb_first_simps list.map pulses_Cons simp_thms if_True)
qed

lemma Flash_loop_False:
  "Flash_loop (int k - 1) False val s =
     pulses (map led (if dropWhile Not (msb_first val k) = [] \<and> 0 < k then [False]
                      else dropWhile Not (msb_first val k))) s"
proof (induction k arbitrary: s)
  case 0
  show ?case
    by (simp only: Flash_loop_0 msb_first_simps list.map pulses.simps dropWhile.simps
        less_irrefl simp_thms if_False)
next
  case (Suc k)
  show ?case
  proof (cases "bit val k")
    case True
    then show ?thesis
      by (simp only: Flash_loop_Suc Flash_loop_True msb_first_simps list.map pulses_Cons
          dropWhile.simps simp_thms if_True if_False list.distinct)
  next
    case False
    show ?thesis
    proof (cases k)
      case 0
      have "Flash_loop (int (Suc 0) - 1) False val s =
              (case Pulse (led False) s of None \<Rightarrow> None | Some s1 \<Rightarrow> Some s1)"
        using False 0 by (simp only: Flash_loop_Suc Flash_loop_0 simp_thms if_True)
      moreover have "pulses (map led (if dropWhile Not (msb_first val (Suc 0)) = [] \<and> 0 < Suc 0
             then [False] else dropWhile Not (msb_first val (Suc 0)))) s =
              (case Pulse (led False) s of None \<Rightarrow> None | Some s1 \<Rightarrow> Some s1)"
        using False 0
        by (simp only: msb_first_simps dropWhile.simps simp_thms if_True if_False zero_less_Suc
            list.map pulses_Cons pulses.simps)
      ultimately show ?thesis using 0 by (simp only:)
    next
      case (Suc m)
      have "Flash_loop (int (Suc k) - 1) False val s = Flash_loop (int k - 1) False val s"
        using False Suc by (simp only: Flash_loop_Suc simp_thms if_False nat.distinct)
      also have "\<dots> = pulses (map led (if dropWhile Not (msb_first val k) = [] \<and> 0 < k
                    then [False] else dropWhile Not (msb_first val k))) s"
        by (rule Suc.IH)
      also have "\<dots> = pulses (map led (if dropWhile Not (msb_first val (Suc k)) = [] \<and> 0 < Suc k
                    then [False] else dropWhile Not (msb_first val (Suc k)))) s"
        using False Suc
        by (simp only: msb_first_simps dropWhile.simps simp_thms if_True zero_less_Suc)
      finally show ?thesis .
    qed
  qed
qed

lemma msb_first_ucast:
  fixes val :: "16 word"
  shows "msb_first (ucast val :: 8 word) 8 = msb_first val 8"
  unfolding msb_first_def by (rule map_cong) (simp_all add: bit_ucast_iff)

lemma Flash_pulses: "Flash val s = pulses (map led (flash_pattern (ucast val))) s"
proof -
  have "Flash val s = Flash_loop (int 8 - 1) False val s"
    by (simp add: Flash_def)
  also have "\<dots> = pulses (map led (flash_pattern (ucast val))) s"
    unfolding flash_pattern_def msb_first_ucast Flash_loop_False Let_def by simp
  finally show ?thesis .
qed

lemma pulses_Some: "\<exists>s'. pulses pins s = Some s'"
proof (induction pins arbitrary: s)
  case Nil
  show ?case by simp
next
  case (Cons pin pins)
  obtain s1 where "Pulse pin s = Some s1" using Pulse_result [of pin s] by blast
  with Cons show ?case by simp
qed

lemma msb_first_8:
  "msb_first v 8 = [bit v 7, bit v 6, bit v 5, bit v 4, bit v 3, bit v 2, bit v 1, bit v 0]"
proof -
  have e: "(8 :: nat) = Suc (Suc (Suc (Suc (Suc (Suc (Suc (Suc 0)))))))" by simp
  show ?thesis unfolding e msb_first_simps by (simp add: numeral_eq_Suc)
qed

lemma flash_pattern_0: "flash_pattern 0 = [False]"
  by (simp add: flash_pattern_def msb_first_8)

lemma flash_pattern_0F: "flash_pattern 0x0F = [True, True, True, True]"
  by (simp add: flash_pattern_def msb_first_8)

lemma flash_pattern_cases:
  "flash_pattern v = (if v = 0 then [False] else dropWhile Not (msb_first v 8))"
proof (cases "v = 0")
  case True
  then show ?thesis by (simp add: flash_pattern_0)
next
  case False
  have "dropWhile Not (msb_first v 8) \<noteq> []"
  proof
    assume "dropWhile Not (msb_first v 8) = []"
    then have z: "\<And>n. n < 8 \<Longrightarrow> \<not> bit v n"
      by (simp add: dropWhile_eq_Nil_conv msb_first_def del: upt_Suc)
    have "v = 0"
      by (rule bit_word_eqI) (simp add: z)
    with False show False by simp
  qed
  with False show ?thesis by (simp add: flash_pattern_def Let_def del: dropWhile_eq_Nil_conv)
qed

text \<open>
  Claim C9. \<open>Flash\<close> looks at the low eight bits of its argument and pulses once per
  bit from the most significant set bit down to bit 0, red for a 1 and green for a 0;
  the zero bits in front of the first set bit are not pulsed. The value 0 gives exactly
  one (green) pulse and the value 0x0F exactly four red pulses. Every call returns.
\<close>

theorem Flash_pattern:
  "Flash val s = pulses (map led (flash_pattern (ucast val))) s
   \<and> (\<exists>s'. Flash val s = Some s')
   \<and> flash_pattern (ucast val) =
        (if (ucast val :: 8 word) = 0 then [False]
         else dropWhile Not (msb_first (ucast val :: 8 word) 8))
   \<and> Flash 0 s = Pulse GreenPin s
   \<and> Flash 0x0F s = pulses [RedPin, RedPin, RedPin, RedPin] s"
proof -
  have a: "Flash 0 s = Pulse GreenPin s"
    by (simp add: Flash_pulses flash_pattern_0 led_def split: option.split)
  have b: "Flash 0x0F s = pulses [RedPin, RedPin, RedPin, RedPin] s"
    by (simp add: Flash_pulses flash_pattern_0F led_def)
  have c: "\<exists>s'. Flash val s = Some s'"
    unfolding Flash_pulses by (rule pulses_Some)
  show ?thesis
    using a b c Flash_pulses [of val s] flash_pattern_cases [of "ucast val"] by blast
qed


theorem Flash_pattern_witness:
  "map_option trace (Flash 0x0F after_setup) =
     Some [Sleep 2 0x40, Wake, Sleep 0 0x46, Wake, Sleep 2 0x40, Wake, Sleep 0 0x46, Wake,
           Sleep 2 0x40, Wake, Sleep 0 0x46, Wake, Sleep 2 0x40, Wake, Sleep 0 0x46, Wake]
   \<and> map_option trace (Flash 0 after_setup) = Some [Sleep 4 0x40, Wake, Sleep 0 0x46, Wake]"
proof -
  have a: "Flash 0x0F after_setup = pulses [RedPin, RedPin, RedPin, RedPin] after_setup"
    using Flash_pattern [of 0 after_setup] by blast
  have b: "Flash 0 after_setup = Pulse GreenPin after_setup"
    using Flash_pattern [of 0 after_setup] by blast
  show ?thesis
    unfolding a b
    by (simp add: Pulse_def Let_def WDDelay_Some wdt_armed_values after_setup_def
        RedPin_def GreenPin_def)
qed

subsection \<open>Reading a byte\<close>

lemma read_slot_simps:
  "fst (read_slot bus s) =
     (if bit (bus (trace s @ [Busy (low_state s) 6, Busy Released 9])) OneWirePin then 1 else 0)"
  "trace (snd (read_slot bus s)) =
     (let t1 = trace s @ [Busy (low_state s) 6, Busy Released 9]
      in t1 @ [Sample (bus t1), Busy Released 55])"
  "PORTB (snd (read_slot bus s)) = PORTB s"
  "DataBytes (snd (read_slot bus s)) = DataBytes s"
  "WDTCSR (snd (read_slot bus s)) = WDTCSR s"
  by (simp_all add: read_slot_def Let_def split_def PinRead_simps LowRelease_trace
      LowRelease_fields DelayMicros_trace DelayMicros_fields line_LowRelease low_state_def)

lemma low_state_read_slot: "low_state (snd (read_slot bus s)) = low_state s"
  by (simp add: low_state_def read_slot_simps)

lemma OneWireRead_loop_unfold:
  "i < 8 \<Longrightarrow>
   OneWireRead_loop i data bus s =
     OneWireRead_loop (Suc i) (data OR push_bit i (fst (read_slot bus s))) bus (snd (read_slot bus s))"
  by (subst OneWireRead_loop.simps) (simp add: read_slot_def Let_def split_def)

lemma OneWireRead_loop_exit: "8 \<le> i \<Longrightarrow> OneWireRead_loop i data bus s = (data, s)"
  by (subst OneWireRead_loop.simps) simp

lemma bit_or_sample:
  fixes data :: "8 word"
  shows "bit (data OR push_bit i (if b then 1 else 0)) j = (bit data j \<or> (j = i \<and> i < 8 \<and> b))"
  by (auto simp add: bit_or_iff bit_push_bit_iff bit_1_iff)

lemma OneWireRead_loop_char:
  assumes "k = 8 - i" and "i \<le> 8" and "trace s = read_trace (low_state s) bus t i"
  shows "trace (snd (OneWireRead_loop i data bus s)) = read_trace (low_state s) bus t 8
       \<and> (\<forall>j<8. bit (fst (OneWireRead_loop i data bus s)) j =
               (bit data j \<or> (i \<le> j \<and> bit (read_sample (low_state s) bus t j) OneWirePin)))
       \<and> PORTB (snd (OneWireRead_loop i data bus s)) = PORTB s
       \<and> DataBytes (snd (OneWireRead_loop i data bus s)) = DataBytes s
       \<and> WDTCSR (snd (OneWireRead_loop i data bus s)) = WDTCSR s"
  using assms
proof (induction k arbitrary: i data s)
  case 0
  then have "8 \<le> i" by simp
  with 0 show ?case by (auto simp add: OneWireRead_loop_exit)
next
  case (Suc k)
  then have i: "i < 8" by simp
  define s1 where "s1 = snd (read_slot bus s)"
  define d1 where "d1 = data OR push_bit i (fst (read_slot bus s))"
  define B where "B j = bit (read_sample (low_state s) bus t j) OneWirePin" for j
  have unf: "OneWireRead_loop i data bus s = OneWireRead_loop (Suc i) d1 bus s1"
    unfolding s1_def d1_def by (rule OneWireRead_loop_unfold [OF i])
  have ls: "low_state s1 = low_state s"
    unfolding s1_def by (rule low_state_read_slot)
  have fl: "PORTB s1 = PORTB s" "DataBytes s1 = DataBytes s" "WDTCSR s1 = WDTCSR s"
    unfolding s1_def by (simp_all add: read_slot_simps)
  have tr: "trace s1 = read_trace (low_state s1) bus t (Suc i)"
    unfolding ls unfolding s1_def using Suc.prems(3) by (simp add: read_slot_simps Let_def)
  have k: "k = 8 - Suc i" "Suc i \<le> 8" using Suc.prems i by simp_all
  note ih = Suc.IH [OF k tr, of d1, unfolded ls fl]
  have d: "bit d1 j = (bit data j \<or> (j = i \<and> B i))" for j
    unfolding d1_def B_def using i Suc.prems(3)
    by (simp add: read_slot_simps bit_or_sample read_sample_def)
  have c: "(bit d1 j \<or> (Suc i \<le> j \<and> B j)) = (bit data j \<or> (i \<le> j \<and> B j))" for j
    unfolding d by (auto simp add: le_less Suc_le_eq)
  show ?case
    unfolding unf using ih by (simp add: c [unfolded B_def])
qed


lemma OneWireRead_char:
  "trace (snd (OneWireRead bus s)) = read_trace (low_state s) bus (trace s) 8
   \<and> (\<forall>j<8. bit (fst (OneWireRead bus s)) j =
           bit (read_sample (low_state s) bus (trace s) j) OneWirePin)
   \<and> PORTB (snd (OneWireRead bus s)) = PORTB s
   \<and> DataBytes (snd (OneWireRead bus s)) = DataBytes s
   \<and> WDTCSR (snd (OneWireRead bus s)) = WDTCSR s"
  using OneWireRead_loop_char [of 8 0 s bus "trace s" 0] by (simp add: OneWireRead_def)

lemma OneWireWrite_loop_fields:
  "PORTB (OneWireWrite_loop k data s) = PORTB s
   \<and> DataBytes (OneWireWrite_loop k data s) = DataBytes s
   \<and> WDTCSR (OneWireWrite_loop k data s) = WDTCSR s"
  by (induction k arbitrary: data s) (simp_all add: Let_def LowRelease_fields)

lemma OneWireWrite_fields:
  "PORTB (OneWireWrite data s) = PORTB s" "DataBytes (OneWireWrite data s) = DataBytes s"
  "WDTCSR (OneWireWrite data s) = WDTCSR s"
  by (simp_all add: OneWireWrite_def OneWireWrite_loop_fields)

lemma low_pulses_append: "low_pulses (a @ b) = low_pulses a @ low_pulses b"
  by (induction a rule: low_pulses.induct) simp_all

lemma low_pulses_write:
  "low_pulses (concat (map (\<lambda>i. write_slot (bit b i)) [0..<k])) =
     map (\<lambda>i. if bit b i then 6 else 60) [0..<k]"
  by (induction k) (simp_all add: low_pulses_append write_slot_def)

lemma low_pulses_read_trace:
  "low_pulses (read_trace DrivenLow bus t k) = low_pulses t @ replicate k 6"
  by (induction k) (simp_all add: Let_def low_pulses_append replicate_append_same)

lemma loopback_echo:
  assumes "j < 8" and "low_pulses t = pre @ map (\<lambda>i. if bit b i then 6 else 60) [0..<8]"
  shows "bit (read_sample DrivenLow (loopback (length pre)) t j) OneWirePin = bit b j"
proof -
  define ps where "ps = map (\<lambda>i. if bit b i then (6 :: nat) else 60) [0..<8] @ replicate j 6 @ [6]"
  have lp: "low_pulses (read_trace DrivenLow (loopback (length pre)) t j
              @ [Busy DrivenLow 6, Busy Released 9]) = pre @ ps"
    unfolding ps_def
    by (simp add: low_pulses_append low_pulses_read_trace assms(2) del: upt_Suc)
  have dr: "drop (length pre) (pre @ ps) = ps" by simp
  have len: "length ps = 9 + j" unfolding ps_def by simp
  have nth: "ps ! (length ps - 9) = (if bit b j then 6 else 60)"
    unfolding len unfolding ps_def using assms(1) by (simp add: nth_append del: upt_Suc)
  have "read_sample DrivenLow (loopback (length pre)) t j =
          (if 9 \<le> length ps \<and> 15 \<le> ps ! (length ps - 9) then 0 else 1)"
    unfolding read_sample_def loopback_def lp dr Let_def ..
  then show ?thesis
    unfolding nth unfolding len by (simp add: OneWirePin_def)
qed

text \<open>
  Claim C6. For every byte, writing it with \<open>OneWireWrite\<close> onto a loopback bus and
  then reading a byte with \<open>OneWireRead\<close>, which assembles the eight sampled bits with
  bit 0 first, gives the byte back (for 0xA5 see the witness).
\<close>

theorem loopback_round_trip:
  assumes "\<not> bit (PORTB s) OneWirePin"
  shows "fst (OneWireRead (loopback (length (low_pulses (trace s)))) (OneWireWrite b s)) = b"
proof (rule bit_word_eqI)
  fix j assume "j < LENGTH(8)"
  then have j: "j < 8" by simp
  let ?s = "OneWireWrite b s"
  have ls: "low_state ?s = DrivenLow"
    using assms by (simp add: low_state_def OneWireWrite_fields)
  have lp: "low_pulses (trace ?s) =
              low_pulses (trace s) @ map (\<lambda>i. if bit b i then 6 else 60) [0..<8]"
    using OneWireWrite_loop_trace [OF assms, of 8 b]
    by (simp only: OneWireWrite_def low_pulses_append low_pulses_write)
  show "bit (fst (OneWireRead (loopback (length (low_pulses (trace s)))) ?s)) j = bit b j"
    using OneWireRead_char [of "loopback (length (low_pulses (trace s)))" ?s] j
      loopback_echo [OF j lp]
    by (simp add: ls)
qed

theorem loopback_round_trip_witness:
  "\<not> bit (PORTB after_setup) OneWirePin
   \<and> fst (OneWireRead (loopback 0) (OneWireWrite 0xA5 after_setup)) = 0xA5"
  using loopback_round_trip [of after_setup "0xA5"]
  by (simp add: after_setup_fields OneWirePin_def)

subsection \<open>Conversion wait\<close>

lemma nsamples_append: "nsamples (a @ b) = nsamples a + nsamples b"
  by (induction a rule: nsamples.induct) simp_all

lemma nsamples_read_trace: "nsamples (read_trace d bus t k) = nsamples t + k"
  by (induction k) (simp_all add: Let_def nsamples_append)

lemma read_sample_stream: "read_sample d (stream_bus f) t j = f (nsamples t + j)"
  by (simp add: read_sample_def stream_bus_def nsamples_append nsamples_read_trace)

lemma OneWireRead_stream:
  "nsamples (trace (snd (OneWireRead (stream_bus f) s))) = nsamples (trace s) + 8
   \<and> (\<forall>j<8. bit (fst (OneWireRead (stream_bus f) s)) j =
           bit (f (nsamples (trace s) + j)) OneWirePin)
   \<and> PORTB (snd (OneWireRead (stream_bus f) s)) = PORTB s
   \<and> DataBytes (snd (OneWireRead (stream_bus f) s)) = DataBytes s
   \<and> WDTCSR (snd (OneWireRead (stream_bus f) s)) = WDTCSR s"
  using OneWireRead_char [of "stream_bus f" s]
  by (simp add: read_sample_stream nsamples_read_trace)

lemma byte_FF_iff:
  fixes r :: "8 word"
  shows "r = 0xFF \<longleftrightarrow> (\<forall>j<8. bit r j)"
proof -
  have m: "(0xFF :: 8 word) = - 1" by simp
  show ?thesis
    unfolding m
  proof
    assume "r = - 1" then show "\<forall>j<8. bit r j" by simp
  next
    assume a: "\<forall>j<8. bit r j"
    show "r = - 1" by (rule bit_word_eqI) (simp add: a)
  qed
qed

lemma OneWireRead_stream_FF:
  "fst (OneWireRead (stream_bus f) s) = 0xFF \<longleftrightarrow>
     (\<forall>j<8. bit (f (nsamples (trace s) + j)) OneWirePin)"
  using OneWireRead_stream [of f s] by (simp add: byte_FF_iff)

lemma Temperature_wait_stream:
  assumes "\<forall>j<k. \<exists>i<8. \<not> bit (f (nsamples (trace s) + 8 * j + i)) OneWirePin"
      and "\<forall>i<8. bit (f (nsamples (trace s) + 8 * k + i)) OneWirePin"
  shows "\<exists>s'. Temperature_wait (stream_bus f) s = Some s'
            \<and> nsamples (trace s') = nsamples (trace s) + 8 * Suc k
            \<and> PORTB s' = PORTB s \<and> DataBytes s' = DataBytes s \<and> WDTCSR s' = WDTCSR s"
  using assms
proof (induction k arbitrary: s)
  case 0
  then have "fst (OneWireRead (stream_bus f) s) = 0xFF"
    by (simp add: OneWireRead_stream_FF)
  then have "Temperature_wait (stream_bus f) s = Some (snd (OneWireRead (stream_bus f) s))"
    by (subst Temperature_wait.simps) (simp add: split_def)
  then show ?case
    using OneWireRead_stream [of f s] by simp
next
  case (Suc k)
  let ?s = "snd (OneWireRead (stream_bus f) s)"
  have n: "nsamples (trace ?s) = nsamples (trace s) + 8"
    and fl: "PORTB ?s = PORTB s" "DataBytes ?s = DataBytes s" "WDTCSR ?s = WDTCSR s"
    using OneWireRead_stream [of f s] by simp_all
  from Suc.prems(1) have "\<exists>i<8. \<not> bit (f (nsamples (trace s) + 8 * 0 + i)) OneWirePin"
    by blast
  then have "fst (OneWireRead (stream_bus f) s) \<noteq> 0xFF"
    by (auto simp add: OneWireRead_stream_FF)
  then have u: "Temperature_wait (stream_bus f) s = Temperature_wait (stream_bus f) ?s"
    by (subst Temperature_wait.simps) (simp add: split_def)
  have a1: "\<forall>j<k. \<exists>i<8. \<not> bit (f (nsamples (trace ?s) + 8 * j + i)) OneWirePin"
  proof (intro allI impI)
    fix j assume "j < k"
    then have "Suc j < Suc k" by simp
    with Suc.prems(1) have "\<exists>i<8. \<not> bit (f (nsamples (trace s) + 8 * Suc j + i)) OneWirePin"
      by blast
    then show "\<exists>i<8. \<not> bit (f (nsamples (trace ?s) + 8 * j + i)) OneWirePin"
      by (simp add: n add.assoc add.left_commute add.commute)
  qed
  have a2: "\<forall>i<8. bit (f (nsamples (trace ?s) + 8 * k + i)) OneWirePin"
    using Suc.prems(2) by (simp add: n add.assoc add.left_commute add.commute)
  from Suc.IH [OF a1 a2] obtain s' where
    "Temperature_wait (stream_bus f) ?s = Some s'"
    "nsamples (trace s') = nsamples (trace ?s) + 8 * Suc k"
    "PORTB s' = PORTB ?s" "DataBytes s' = DataBytes ?s" "WDTCSR s' = WDTCSR ?s"
    by blast
  then show ?case
    by (simp add: u n fl)
qed

lemma late_release_wait:
  "\<exists>s'. Temperature_wait (stream_bus late_release) after_setup = Some s'
        \<and> nsamples (trace s') = 16"
proof -
  have h1: "\<forall>j<1. \<exists>i<8. \<not> bit (late_release (nsamples (trace after_setup) + 8 * j + i)) OneWirePin"
    by (auto simp add: late_release_def after_setup_fields intro!: exI [of _ 0])
  have h2: "\<forall>i<8. bit (late_release (nsamples (trace after_setup) + 8 * 1 + i)) OneWirePin"
    by (simp add: late_release_def after_setup_fields OneWirePin_def)
  from Temperature_wait_stream [OF h1 h2] show ?thesis
    by (auto simp add: after_setup_fields)
qed


lemma byte_high_iff: "byte_high f n \<longleftrightarrow> (\<forall>i<8. bit (f (n + i)) OneWirePin)"
  by (auto simp add: byte_high_def list_all_iff simp del: upt_Suc)

lemma Temperature_wait_Some_stream:
  assumes "Temperature_wait bus s = Some s'"
  shows "bus = stream_bus f \<longrightarrow> (\<exists>k. byte_high f (nsamples (trace s) + 8 * k))"
proof (rule Temperature_wait.raw_induct
    [where P = "\<lambda>b t y. b = stream_bus f \<longrightarrow> (\<exists>k. byte_high f (nsamples (trace t) + 8 * k))",
     OF _ assms])
  fix wait :: "bus \<Rightarrow> mcu \<Rightarrow> mcu option" and bus s s'
  assume IH: "\<And>b t y. wait b t = Some y \<Longrightarrow>
                b = stream_bus f \<longrightarrow> (\<exists>k. byte_high f (nsamples (trace t) + 8 * k))"
    and eq: "(case OneWireRead bus s of
                (d, s1) \<Rightarrow> if d \<noteq> 0xFF then wait bus s1 else Some s1) = Some s'"
  show "bus = stream_bus f \<longrightarrow> (\<exists>k. byte_high f (nsamples (trace s) + 8 * k))"
  proof
    assume bus: "bus = stream_bus f"
    show "\<exists>k. byte_high f (nsamples (trace s) + 8 * k)"
    proof (cases "fst (OneWireRead bus s) = 0xFF")
      case True
      then have "byte_high f (nsamples (trace s) + 8 * 0)"
        using bus by (simp add: OneWireRead_stream_FF byte_high_iff)
      then show ?thesis by blast
    next
      case False
      then have "wait bus (snd (OneWireRead bus s)) = Some s'"
        using eq by (simp add: split_def)
      from IH [OF this] bus obtain k where
        "byte_high f (nsamples (trace (snd (OneWireRead bus s))) + 8 * k)" by blast
      then have "byte_high f (nsamples (trace s) + 8 * Suc k)"
        using OneWireRead_stream [of f s] bus by (simp add: ac_simps)
      then show ?thesis by blast
    qed
  qed
qed

lemma Temperature_wait_None_stream:
  assumes "\<forall>j. \<not> byte_high f (nsamples (trace s) + 8 * j)"
  shows "Temperature_wait (stream_bus f) s = None"
proof (cases "Temperature_wait (stream_bus f) s")
  case None
  then show ?thesis .
next
  case (Some s')
  from Temperature_wait_Some_stream [OF Some, of f] assms show ?thesis by blast
qed

lemma Temperature_wait_bytes_stream:
  assumes "\<forall>j<k. \<not> byte_high f (nsamples (trace s) + 8 * j)"
      and "byte_high f (nsamples (trace s) + 8 * k)"
  shows "\<exists>s'. Temperature_wait (stream_bus f) s = Some s'
            \<and> nsamples (trace s') = nsamples (trace s) + 8 * (k + 1)"
proof -
  have a: "\<forall>j<k. \<exists>i<8. \<not> bit (f (nsamples (trace s) + 8 * j + i)) OneWirePin"
    using assms(1) by (simp add: byte_high_iff)
  have b: "\<forall>i<8. bit (f (nsamples (trace s) + 8 * k + i)) OneWirePin"
    using assms(2) by (simp add: byte_high_iff)
  from Temperature_wait_stream [OF a b] show ?thesis by auto
qed

lemma byte_high_late_release:
  "\<not> byte_high late_release 0" "byte_high late_release 8"
  by (simp_all add: byte_high_def late_release_def OneWirePin_def upt_rec)

lemma byte_high_held_low: "\<not> byte_high held_low n"
  by (simp add: byte_high_def held_low_def upt_rec)

text \<open>
  Claim C2, as the code has it. During the conversion wait the program reads the bus a
  byte at a time, eight bit slots per byte, and leaves the loop after the first byte
  whose eight samples all read high (0xFF). While every byte contains a low sample,
  as it does while the sensor holds the line low, the loop goes on, for ever if need be.
  On a bus given by a stream of samples: when byte \<open>k\<close> is the first that is all high, the
  wait ends after exactly \<open>8 * (k + 1)\<close> samples; when no byte is all high it never
  ends.
\<close>

theorem Temperature_wait_bytes:
  "((\<forall>j<k. \<not> byte_high f (samples_taken s + 8 * j)) \<and> byte_high f (samples_taken s + 8 * k)
      \<longrightarrow> (\<exists>s'. Temperature_wait (stream_bus f) s = Some s'
                \<and> samples_taken s' = samples_taken s + 8 * (k + 1)))
   \<and> ((\<forall>j. \<not> byte_high f (samples_taken s + 8 * j))
      \<longrightarrow> Temperature_wait (stream_bus f) s = None)"
  unfolding samples_taken_def
  using Temperature_wait_bytes_stream [of k f s] Temperature_wait_None_stream [of f s]
  by blast

theorem Temperature_wait_bytes_witness:
  "map_option samples_taken (Temperature_wait (stream_bus late_release) after_setup) = Some 16
   \<and> Temperature_wait (stream_bus held_low) after_setup = None"
proof -
  have a: "(\<forall>j<1. \<not> byte_high late_release (samples_taken after_setup + 8 * j))
           \<and> byte_high late_release (samples_taken after_setup + 8 * 1)"
    by (simp add: samples_taken_def after_setup_fields byte_high_late_release)
  have b: "\<forall>j. \<not> byte_high held_low (samples_taken after_setup + 8 * j)"
    by (simp add: byte_high_held_low)
  from a Temperature_wait_bytes [of 1 late_release after_setup] b
    Temperature_wait_bytes [of 0 held_low after_setup]
  show ?thesis
    by (auto simp add: samples_taken_def after_setup_fields)
qed

text \<open>
  The claim as it is stated, that the wait reads single bits and ends as soon as one bit
  reads 1, fails: the sensor \<open>late_release\<close> holds the line low for the first sample
  only, the second sample reads 1, and the wait ends after 16 samples, not after 2.
\<close>

theorem Temperature_wait_first_one_counterexample:
  "\<not> bit (late_release 0) OneWirePin \<and> bit (late_release 1) OneWirePin
   \<and> map_option samples_taken (Temperature_wait (stream_bus late_release) after_setup) = Some 16"
  using late_release_wait
  by (auto simp add: samples_taken_def late_release_def OneWirePin_def)

subsection \<open>The read cycle\<close>

lemma OneWireReset_stream:
  "fst (OneWireReset (stream_bus f) s) = (if bit (f (nsamples (trace s))) OneWirePin then 1 else 0)"
  "nsamples (trace (snd (OneWireReset (stream_bus f) s))) = nsamples (trace s) + 1"
  "PORTB (snd (OneWireReset (stream_bus f) s)) = PORTB s"
  "DataBytes (snd (OneWireReset (stream_bus f) s)) = DataBytes s"
  "WDTCSR (snd (OneWireReset (stream_bus f) s)) = WDTCSR s"
  by (simp_all add: OneWireReset_def Let_def split_def PinRead_simps LowRelease_trace
      LowRelease_fields DelayMicros_trace DelayMicros_fields stream_bus_def nsamples_append)

lemma nsamples_OneWireWrite_loop:
  "nsamples (trace (OneWireWrite_loop k data s)) = nsamples (trace s)"
  by (induction k arbitrary: data s) (simp_all add: Let_def LowRelease_trace nsamples_append)

lemma nsamples_OneWireWrite: "nsamples (trace (OneWireWrite data s)) = nsamples (trace s)"
  by (simp add: OneWireWrite_def nsamples_OneWireWrite_loop)

lemma OneWireReadBytes_loop_unfold:
  "i < 9 \<Longrightarrow>
   OneWireReadBytes_loop i 9 bus s =
     OneWireReadBytes_loop (Suc i) 9 bus
       ((snd (OneWireRead bus s))\<lparr>DataBytes :=
           (DataBytes (snd (OneWireRead bus s)))(i := fst (OneWireRead bus s))\<rparr>)"
  by (subst OneWireReadBytes_loop.simps) (simp add: split_def Let_def)

lemma OneWireReadBytes_loop_exit: "9 \<le> i \<Longrightarrow> OneWireReadBytes_loop i 9 bus s = Some s"
  by (subst OneWireReadBytes_loop.simps) simp

lemma OneWireReadBytes_loop_stream:
  assumes "k = 9 - i" and "i \<le> 9"
  shows "\<exists>s'. OneWireReadBytes_loop i 9 (stream_bus f) s = Some s'
           \<and> nsamples (trace s') = nsamples (trace s) + 8 * (9 - i)
           \<and> PORTB s' = PORTB s \<and> WDTCSR s' = WDTCSR s
           \<and> (\<forall>j<i. DataBytes s' j = DataBytes s j)
           \<and> (\<forall>j. i \<le> j \<and> j < 9 \<longrightarrow>
                 (\<forall>b<8. bit (DataBytes s' j) b =
                          bit (f (nsamples (trace s) + 8 * (j - i) + b)) OneWirePin))"
  using assms
proof (induction k arbitrary: i s)
  case 0
  then show ?case by (auto simp add: OneWireReadBytes_loop_exit)
next
  case (Suc k)
  then have i: "i < 9" by simp
  define r where "r = OneWireRead (stream_bus f) s"
  define s1 where "s1 = (snd r)\<lparr>DataBytes := (DataBytes (snd r))(i := fst r)\<rparr>"
  define n where "n = nsamples (trace s)"
  have unf: "OneWireReadBytes_loop i 9 (stream_bus f) s =
             OneWireReadBytes_loop (Suc i) 9 (stream_bus f) s1"
    unfolding s1_def r_def by (rule OneWireReadBytes_loop_unfold [OF i])
  have n1: "nsamples (trace s1) = n + 8"
    and p1: "PORTB s1 = PORTB s" "WDTCSR s1 = WDTCSR s"
    and b1: "\<And>b. b < 8 \<Longrightarrow> bit (DataBytes s1 i) b = bit (f (n + b)) OneWirePin"
    and o1: "\<And>j. j \<noteq> i \<Longrightarrow> DataBytes s1 j = DataBytes s j"
    unfolding s1_def r_def n_def using OneWireRead_stream [of f s] by simp_all
  have k: "k = 9 - Suc i" "Suc i \<le> 9" using Suc.prems by simp_all
  from Suc.IH [OF k, of s1] obtain s' where
    s': "OneWireReadBytes_loop (Suc i) 9 (stream_bus f) s1 = Some s'"
    and ns: "nsamples (trace s') = nsamples (trace s1) + 8 * (9 - Suc i)"
    and ps: "PORTB s' = PORTB s1" "WDTCSR s' = WDTCSR s1"
    and lo: "\<And>j. j < Suc i \<Longrightarrow> DataBytes s' j = DataBytes s1 j"
    and hi: "\<And>j b. Suc i \<le> j \<Longrightarrow> j < 9 \<Longrightarrow> b < 8 \<Longrightarrow>
               bit (DataBytes s' j) b =
                 bit (f (nsamples (trace s1) + 8 * (j - Suc i) + b)) OneWirePin"
    by blast
  have c1: "nsamples (trace s') = n + 8 * (9 - i)"
    using ns i by (simp add: n1)
  have c2: "DataBytes s' j = DataBytes s j" if "j < i" for j
    using that lo [of j] o1 [of j] by simp
  have c3: "bit (DataBytes s' j) b = bit (f (n + 8 * (j - i) + b)) OneWirePin"
    if "i \<le> j" "j < 9" "b < 8" for j b
  proof (cases "j = i")
    case True
    then show ?thesis using lo [of i] b1 [OF that(3)] by simp
  next
    case False
    then have j: "Suc i \<le> j" using that(1) by simp
    have e: "n + 8 + 8 * (j - Suc i) + b = n + 8 * (j - i) + b" using j by simp
    show ?thesis using hi [OF j that(2,3)] by (simp only: n1 e)
  qed
  show ?case
    unfolding unf n_def [symmetric] using s' c1 c2 c3 ps p1 by simp
qed

lemma OneWireReadBytes_stream:
  "\<exists>s'. OneWireReadBytes 9 (stream_bus f) s = Some s'
        \<and> nsamples (trace s') = nsamples (trace s) + 72
        \<and> PORTB s' = PORTB s \<and> WDTCSR s' = WDTCSR s
        \<and> (\<forall>j<9. \<forall>b<8. bit (DataBytes s' j) b =
                          bit (f (nsamples (trace s) + 8 * j + b)) OneWirePin)"
  using OneWireReadBytes_loop_stream [of 9 0 f s] by (simp add: OneWireReadBytes_def)

lemma acquire_stream:
  assumes "\<forall>j<k. \<exists>i<8. \<not> bit (f (nsamples (trace s) + 8 * j + i)) OneWirePin"
      and "\<forall>i<8. bit (f (nsamples (trace s) + 8 * k + i)) OneWirePin"
  shows "\<exists>s'. acquire (stream_bus f) s = Some s'
        \<and> PORTB s' = PORTB s \<and> WDTCSR s' = WDTCSR s
        \<and> (\<forall>j<9. \<forall>b<8. bit (DataBytes s' j) b =
                bit (f (nsamples (trace s) + 8 * Suc k + 1 + 8 * j + b)) OneWirePin)"
proof -
  define s3 where "s3 = OneWireWrite (ucast ConvertT) (OneWireWrite (ucast SkipROM) s)"
  have n3: "nsamples (trace s3) = nsamples (trace s)"
    and f3: "PORTB s3 = PORTB s" "WDTCSR s3 = WDTCSR s"
    unfolding s3_def by (simp_all add: nsamples_OneWireWrite OneWireWrite_fields)
  from Temperature_wait_stream [of k f s3] assms obtain s4 where
    w: "Temperature_wait (stream_bus f) s3 = Some s4"
    and n4: "nsamples (trace s4) = nsamples (trace s) + 8 * Suc k"
    and f4: "PORTB s4 = PORTB s" "WDTCSR s4 = WDTCSR s"
    unfolding n3 f3 by blast
  define s7 where "s7 = OneWireWrite (ucast ReadScratchpad)
      (OneWireWrite (ucast SkipROM) (snd (OneWireReset (stream_bus f) s4)))"
  have n7: "nsamples (trace s7) = nsamples (trace s) + 8 * Suc k + 1"
    and f7: "PORTB s7 = PORTB s" "WDTCSR s7 = WDTCSR s"
    unfolding s7_def
    by (simp_all add: nsamples_OneWireWrite OneWireWrite_fields OneWireReset_stream n4 f4)
  have a: "acquire (stream_bus f) s = OneWireReadBytes 9 (stream_bus f) s7"
    unfolding acquire_def Let_def s3_def [symmetric] w s7_def by (simp add: split_def)
  show ?thesis
    unfolding a using OneWireReadBytes_stream [of f s7] by (auto simp add: n7 f7)
qed


lemma DisplayError_flash:
  "\<exists>s'. DisplayError pin s = Some s' \<and> trace s' = trace s @ error_flash pin (PORTB s)"
  using DisplayError_result [of pin s] by (auto simp add: error_flash_def)

lemma Temperature_acquire:
  "Temperature bus s =
     (case OneWireReset bus s of
        (presence, s1) \<Rightarrow>
          if presence \<noteq> 0
          then (case DisplayError RedPin s1 of None \<Rightarrow> None | Some s2 \<Rightarrow> Some (0, s2))
          else (case acquire bus s1 of
                  None \<Rightarrow> None
                | Some s8 \<Rightarrow>
                    if crc8_spec (map (DataBytes s8) [0..<9]) = 0
                    then Some (DataWords s8 0, s8)
                    else (case DisplayError GreenPin s8 of
                            None \<Rightarrow> None
                          | Some s9 \<Rightarrow> Some (0, s9))))"
proof -
  have c: "OneWireCRC 9 t = Some (crc8_spec (map (DataBytes t) [0..<9]))" for t
    using OneWireCRC_crc8_spec [of 9 t] by simp
  show ?thesis
    unfolding Temperature_def acquire_def Let_def split_def c
    by (simp split: option.split del: upt_Suc)
qed

lemma sensor_run:
  assumes "nsamples (trace s) = 0" and "length bs = 9"
  shows "fst (OneWireReset (stream_bus (sensor_stream bs)) s) = 0
       \<and> (\<exists>s8. acquire (stream_bus (sensor_stream bs))
                  (snd (OneWireReset (stream_bus (sensor_stream bs)) s)) = Some s8
               \<and> map (DataBytes s8) [0..<9] = bs
               \<and> DataBytes s8 0 = bs ! 0 \<and> DataBytes s8 1 = bs ! 1)"
proof -
  let ?f = "sensor_stream bs"
  let ?s1 = "snd (OneWireReset (stream_bus ?f) s)"
  have p: "fst (OneWireReset (stream_bus ?f) s) = 0"
    by (simp add: OneWireReset_stream assms(1) sensor_stream_def)
  have n1: "nsamples (trace ?s1) = 1"
    by (simp add: OneWireReset_stream assms(1))
  have a: "\<forall>j<0. \<exists>i<8. \<not> bit (?f (nsamples (trace ?s1) + 8 * j + i)) OneWirePin"
    by simp
  have b: "\<forall>i<8. bit (?f (nsamples (trace ?s1) + 8 * 0 + i)) OneWirePin"
    by (simp add: n1 sensor_stream_def OneWirePin_def)
  from acquire_stream [OF a b] obtain s8 where
    s8: "acquire (stream_bus ?f) ?s1 = Some s8"
    and bits: "\<And>j b. j < 9 \<Longrightarrow> b < 8 \<Longrightarrow>
                 bit (DataBytes s8 j) b = bit (?f (10 + 8 * j + b)) OneWirePin"
    by (auto simp add: n1)
  have byte: "DataBytes s8 j = bs ! j" if "j < 9" for j
  proof (rule bit_word_eqI)
    fix b assume "b < LENGTH(8)"
    then have b: "b < 8" by simp
    have d: "(8 * j + b) div 8 = j" "(8 * j + b) mod 8 = b" using b by simp_all
    have l: "8 * j + b < 8 * length bs" using that b assms(2) by simp
    show "bit (DataBytes s8 j) b = bit (bs ! j) b"
      using bits [OF that b] l b by (simp add: sensor_stream_def d OneWirePin_def)
  qed
  have "map (DataBytes s8) [0..<9] = bs"
    by (rule nth_equalityI) (simp_all add: assms(2) byte del: upt_Suc)
  with p s8 byte [of 0] byte [of 1] show ?thesis by simp
qed


lemma no_sensor_reset:
  "fst (OneWireReset (stream_bus no_sensor) after_setup) = 1"
  "trace (snd (OneWireReset (stream_bus no_sensor) after_setup)) =
     [Busy DrivenLow 480, Busy Released 70, Sample 1, Busy Released 410]"
  "PORTB (snd (OneWireReset (stream_bus no_sensor) after_setup)) = 0"
  by (simp_all add: OneWireReset_def Let_def split_def PinRead_simps LowRelease_trace
      LowRelease_fields DelayMicros_trace DelayMicros_fields stream_bus_def no_sensor_def
      after_setup_fields line_LowRelease OneWirePin_def)

lemma crc8_zero_scratchpad: "crc8_spec zero_scratchpad = 0"
  by (simp add: crc8_spec_def zero_scratchpad_def crc8_byte_unfold crc8_round_def)

lemma crc8_corrupted_scratchpad: "crc8_spec corrupted_scratchpad = 0xA4"
  by (simp add: crc8_spec_def corrupted_scratchpad_def crc8_byte_unfold crc8_round_def)

text \<open>
  Claim C1. A read cycle that comes to an end has one of three outcomes. When the first
  reset finds no presence (the value returned is not 0), \<open>Temperature\<close> reports
  "device not found" on the red LED and returns 0 without touching the bus again. When
  a device is present and the checksum over the nine bytes read is 0, it returns the
  first 16-bit word of the buffer (bytes 0 and 1, low byte first) and shows no error.
  When the checksum is not 0, it reports "checksum error" on the green LED and returns
  0. The scratchpad word is thus returned exactly when presence was detected and the
  checksum is 0. A cycle whose conversion wait never ends returns nothing.
\<close>

theorem Temperature_outcome:
  "(case OneWireReset bus s of
      (presence, s1) \<Rightarrow>
        if presence \<noteq> 0
        then (\<exists>s'. Temperature bus s = Some (0, s')
                \<and> trace s' = trace s1 @ error_flash RedPin (PORTB s1))
        else (case acquire bus s1 of
                None \<Rightarrow> Temperature bus s = None
              | Some s8 \<Rightarrow>
                  if crc8_spec (map (DataBytes s8) [0..<9]) = 0
                  then Temperature bus s = Some (DataWords s8 0, s8)
                  else (\<exists>s'. Temperature bus s = Some (0, s')
                          \<and> trace s' = trace s8 @ error_flash GreenPin (PORTB s8))))"
proof -
  obtain presence s1 where r: "OneWireReset bus s = (presence, s1)"
    by (cases "OneWireReset bus s")
  show ?thesis
  proof (cases "presence \<noteq> 0")
    case True
    then show ?thesis
      using DisplayError_flash [of RedPin s1] by (auto simp add: Temperature_acquire r)
  next
    case False
    show ?thesis
    proof (cases "acquire bus s1")
      case None
      with False show ?thesis by (simp add: Temperature_acquire r)
    next
      case (Some s8)
      with False show ?thesis
        using DisplayError_flash [of GreenPin s8]
        by (auto simp add: Temperature_acquire r simp del: upt_Suc)
    qed
  qed
qed

theorem Temperature_outcome_witness:
  "map_option fst (Temperature (stream_bus (sensor_stream power_on_scratchpad)) after_setup)
     = Some 0x0550
   \<and> map_option fst (Temperature (stream_bus (sensor_stream corrupted_scratchpad)) after_setup)
     = Some 0
   \<and> map_option (\<lambda>(r, s'). (r, trace s')) (Temperature (stream_bus no_sensor) after_setup)
     = Some (0, [Busy DrivenLow 480, Busy Released 70, Sample 1, Busy Released 410,
                 Sleep 2 0x46, Wake, Sleep 0 0x46, Wake])"
proof -
  have n: "nsamples (trace after_setup) = 0" by (simp add: after_setup_fields)
  from sensor_run [OF n, of power_on_scratchpad] obtain s8 where
    "fst (OneWireReset (stream_bus (sensor_stream power_on_scratchpad)) after_setup) = 0"
    "acquire (stream_bus (sensor_stream power_on_scratchpad))
       (snd (OneWireReset (stream_bus (sensor_stream power_on_scratchpad)) after_setup)) = Some s8"
    "map (DataBytes s8) [0..<9] = power_on_scratchpad"
    "DataBytes s8 0 = 0x50" "DataBytes s8 1 = 0x05"
    by (auto simp add: power_on_scratchpad_def)
  then have a: "map_option fst
      (Temperature (stream_bus (sensor_stream power_on_scratchpad)) after_setup) = Some 0x0550"
    using Temperature_outcome [of "stream_bus (sensor_stream power_on_scratchpad)" after_setup]
    by (simp add: split_def crc8_power_on DataWords_def del: upt_Suc)
  from sensor_run [OF n, of corrupted_scratchpad] obtain t8 where
    "fst (OneWireReset (stream_bus (sensor_stream corrupted_scratchpad)) after_setup) = 0"
    "acquire (stream_bus (sensor_stream corrupted_scratchpad))
       (snd (OneWireReset (stream_bus (sensor_stream corrupted_scratchpad)) after_setup)) = Some t8"
    "map (DataBytes t8) [0..<9] = corrupted_scratchpad"
    by (auto simp add: corrupted_scratchpad_def)
  then have b: "map_option fst
      (Temperature (stream_bus (sensor_stream corrupted_scratchpad)) after_setup) = Some 0"
    using Temperature_outcome [of "stream_bus (sensor_stream corrupted_scratchpad)" after_setup]
    by (auto simp add: split_def crc8_corrupted_scratchpad simp del: upt_Suc)
  have c: "map_option (\<lambda>(r, s'). (r, trace s')) (Temperature (stream_bus no_sensor) after_setup)
     = Some (0, [Busy DrivenLow 480, Busy Released 70, Sample 1, Busy Released 410,
                 Sleep 2 0x46, Wake, Sleep 0 0x46, Wake])"
    using Temperature_outcome [of "stream_bus no_sensor" after_setup]
    by (auto simp add: split_def no_sensor_reset error_flash_def RedPin_def)
  from a b c show ?thesis by simp
qed

text \<open>
  Claim C10. On both failure paths, no presence and checksum mismatch, \<open>Temperature\<close>
  returns the integer 0, and it returns the same 0 for a valid scratchpad whose first
  word is 0 (zero degrees): the value alone does not tell the caller which happened.
\<close>

theorem Temperature_sentinel:
  "(case OneWireReset bus s of
      (presence, s1) \<Rightarrow>
        (presence \<noteq> 0 \<longrightarrow> map_option fst (Temperature bus s) = Some 0)
      \<and> (\<forall>s8. presence = 0 \<and> acquire bus s1 = Some s8
              \<and> crc8_spec (map (DataBytes s8) [0..<9]) \<noteq> 0
            \<longrightarrow> map_option fst (Temperature bus s) = Some 0)
      \<and> (\<forall>s8. presence = 0 \<and> acquire bus s1 = Some s8
              \<and> crc8_spec (map (DataBytes s8) [0..<9]) = 0
              \<and> DataBytes s8 0 = 0 \<and> DataBytes s8 1 = 0
            \<longrightarrow> map_option fst (Temperature bus s) = Some 0))"
proof -
  obtain presence s1 where r: "OneWireReset bus s = (presence, s1)"
    by (cases "OneWireReset bus s")
  have d: "\<exists>s'. DisplayError pin t = Some s'" for pin t
    using DisplayError_result [of pin t] by blast
  have a: "presence \<noteq> 0 \<Longrightarrow> map_option fst (Temperature bus s) = Some 0"
    using d [of RedPin s1] by (auto simp add: Temperature_acquire r)
  have b: "map_option fst (Temperature bus s) = Some 0"
    if "presence = 0" "acquire bus s1 = Some s8" "crc8_spec (map (DataBytes s8) [0..<9]) \<noteq> 0"
    for s8
    using that d [of GreenPin s8] by (auto simp add: Temperature_acquire r simp del: upt_Suc)
  have c: "map_option fst (Temperature bus s) = Some 0"
    if "presence = 0" "acquire bus s1 = Some s8" "crc8_spec (map (DataBytes s8) [0..<9]) = 0"
      "DataBytes s8 0 = 0" "DataBytes s8 1 = 0"
    for s8
    using that by (simp add: Temperature_acquire r DataWords_def del: upt_Suc)
  show ?thesis
    unfolding r using a b c by (simp del: upt_Suc) blast
qed

theorem Temperature_sentinel_witness:
  "map_option fst (Temperature (stream_bus no_sensor) after_setup) = Some 0
   \<and> crc8_spec corrupted_scratchpad \<noteq> 0
   \<and> map_option fst (Temperature (stream_bus (sensor_stream corrupted_scratchpad)) after_setup)
       = Some 0
   \<and> crc8_spec zero_scratchpad = 0
   \<and> map_option fst (Temperature (stream_bus (sensor_stream zero_scratchpad)) after_setup)
       = Some 0"
proof -
  have n: "nsamples (trace after_setup) = 0" by (simp add: after_setup_fields)
  have a: "map_option fst (Temperature (stream_bus no_sensor) after_setup) = Some 0"
    using Temperature_sentinel [of "stream_bus no_sensor" after_setup]
    by (simp add: split_def no_sensor_reset)
  from sensor_run [OF n, of corrupted_scratchpad] obtain t8 where
    t: "fst (OneWireReset (stream_bus (sensor_stream corrupted_scratchpad)) after_setup) = 0"
    "acquire (stream_bus (sensor_stream corrupted_scratchpad))
       (snd (OneWireReset (stream_bus (sensor_stream corrupted_scratchpad)) after_setup)) = Some t8"
    "map (DataBytes t8) [0..<9] = corrupted_scratchpad"
    by (auto simp add: corrupted_scratchpad_def)
  have b: "map_option fst
      (Temperature (stream_bus (sensor_stream corrupted_scratchpad)) after_setup) = Some 0"
    using Temperature_sentinel [of "stream_bus (sensor_stream corrupted_scratchpad)" after_setup] t
    by (simp add: split_def crc8_corrupted_scratchpad del: upt_Suc)
  from sensor_run [OF n, of zero_scratchpad] obtain z8 where
    z: "fst (OneWireReset (stream_bus (sensor_stream zero_scratchpad)) after_setup) = 0"
    "acquire (stream_bus (sensor_stream zero_scratchpad))
       (snd (OneWireReset (stream_bus (sensor_stream zero_scratchpad)) after_setup)) = Some z8"
    "map (DataBytes z8) [0..<9] = zero_scratchpad"
    "DataBytes z8 0 = 0" "DataBytes z8 1 = 0"
    by (auto simp add: zero_scratchpad_def)
  have c: "map_option fst
      (Temperature (stream_bus (sensor_stream zero_scratchpad)) after_setup) = Some 0"
    using Temperature_sentinel [of "stream_bus (sensor_stream zero_scratchpad)" after_setup] z
    by (simp add: split_def crc8_zero_scratchpad del: upt_Suc)
  from a b c show ?thesis
    by (simp add: crc8_corrupted_scratchpad crc8_zero_scratchpad)
qed

end
